theory Spec2Isabelle
  imports Main
begin

section \<open>JavaScript values and strings\<close>

text \<open>
  Values of the source language, as far as \<open>src/activitypub/index.js\<close> handles them:
  what a parsed JSON body, an activity payload or a header value can be. Objects are
  association lists of their own enumerable properties, in insertion order; a property is
  read with \<open>map_of\<close>.
\<close>

datatype jsval =
    JUndefined
  | JNull
  | JBool bool
  | JNum int
  | JStr string
  | JArr "jsval list"
  | JObj "(string \<times> jsval) list"

text \<open>The exceptions the module raises itself, and those of its collaborators.\<close>

datatype error =
    InvalidUid        \<comment> \<open>\<open>[[error:invalid-uid]]\<close>\<close>
  | PubKeyNotFound    \<comment> \<open>\<open>[[error:activitypub.pubKey-not-found]]\<close>\<close>
  | GetFailed         \<comment> \<open>\<open>[[error:activitypub.get-failed]]\<close>\<close>
  | ActivityFailed    \<comment> \<open>\<open>activity-failed\<close>\<close>
  | TypeError         \<comment> \<open>raised by the language itself\<close>
  | External string   \<comment> \<open>raised by a collaborator: network, crypto, actor store\<close>

text \<open>Truthiness, as \<open>if (payload)\<close> and \<open>a || b\<close> test it.\<close>

fun truthy :: "jsval \<Rightarrow> bool" where
  "truthy JUndefined = False"
| "truthy JNull = False"
| "truthy (JBool b) = b"
| "truthy (JNum n) = (n \<noteq> 0)"
| "truthy (JStr s) = (s \<noteq> [])"
| "truthy (JArr _) = True"
| "truthy (JObj _) = True"

abbreviation dq :: char where
  "dq \<equiv> CHR 0x22"

abbreviation nl :: char where
  "nl \<equiv> CHR 0x0A"

text \<open>
  \<open>String.prototype.split\<close> with a separator string: the pieces between the
  occurrences of the separator, scanned from the left; the empty separator splits into
  single characters.
\<close>

definition starts_with :: "string \<Rightarrow> string \<Rightarrow> bool" where
  "starts_with s p = (take (length p) s = p)"

function split_aux :: "string \<Rightarrow> string \<Rightarrow> string \<Rightarrow> string list" where
  "split_aux sep acc [] = [rev acc]"
| "split_aux sep acc (c # cs) =
     (if sep \<noteq> [] \<and> starts_with (c # cs) sep
      then rev acc # split_aux sep [] (drop (length sep) (c # cs))
      else split_aux sep (c # acc) cs)"
  by pat_completeness auto
termination
  by (relation "measure (\<lambda>(sep, acc, s). length s)") (auto simp: neq_Nil_conv)

definition split_js :: "string \<Rightarrow> string \<Rightarrow> string list" where
  "split_js s sep = (if sep = [] then map (\<lambda>c. [c]) s else split_aux sep [] s)"

text \<open>\<open>Array.prototype.join\<close> on an array of strings.\<close>

fun join_js :: "string list \<Rightarrow> string \<Rightarrow> string" where
  "join_js [] sep = []"
| "join_js [x] sep = x"
| "join_js (x # y # ys) sep = x @ sep @ join_js (y # ys) sep"

text \<open>\<open>String.prototype.toLowerCase\<close>, on the ASCII letters.\<close>

definition lower_char :: "char \<Rightarrow> char" where
  "lower_char c =
     (case map_of (zip ''ABCDEFGHIJKLMNOPQRSTUVWXYZ'' ''abcdefghijklmnopqrstuvwxyz'') c of
        Some l \<Rightarrow> l
      | None \<Rightarrow> c)"

definition toLowerCase :: "string \<Rightarrow> string" where
  "toLowerCase s = map lower_char s"

text \<open>\<open>String(n)\<close> for a natural number and for an integer: the decimal digits.\<close>

definition digit_char :: "nat \<Rightarrow> char" where
  "digit_char d = ''0123456789'' ! d"

function string_of_nat :: "nat \<Rightarrow> string" where
  "string_of_nat n =
     (if n < 10 then [digit_char n] else string_of_nat (n div 10) @ [digit_char (n mod 10)])"
  by pat_completeness auto
termination
  by (relation "measure id") auto

declare string_of_nat.simps [simp del]

definition string_of_int :: "int \<Rightarrow> string" where
  "string_of_int i = (if i < 0 then CHR ''-'' # string_of_nat (nat (- i)) else string_of_nat (nat i))"

section \<open>Objects\<close>

text \<open>
  \<open>v.hasOwnProperty(k)\<close> as a method call on a value that came out of \<open>JSON.parse\<close>:
  \<open>null\<close> and \<open>undefined\<close> have no properties, so the call raises; an object whose own
  property \<open>hasOwnProperty\<close> shadows the inherited method raises too, since no JSON
  value is callable; strings, numbers, booleans and arrays inherit the method and have
  only index and length properties of their own.
\<close>

fun hasOwnProperty :: "jsval \<Rightarrow> string \<Rightarrow> error + bool" where
  "hasOwnProperty JUndefined k = Inl TypeError"
| "hasOwnProperty JNull k = Inl TypeError"
| "hasOwnProperty (JObj ps) k =
     (if map_of ps ''hasOwnProperty'' \<noteq> None then Inl TypeError else Inr (map_of ps k \<noteq> None))"
| "hasOwnProperty v k = Inr False"

text \<open>
  Reading a property whose name no prototype defines (\<open>publicKey\<close>, \<open>publicKeyPem\<close>):
  the own property or \<open>undefined\<close>; on \<open>null\<close> and \<open>undefined\<close> the read raises.
\<close>

fun get_prop :: "jsval \<Rightarrow> string \<Rightarrow> error + jsval" where
  "get_prop JUndefined k = Inl TypeError"
| "get_prop JNull k = Inl TypeError"
| "get_prop (JObj ps) k = Inr (case map_of ps k of Some v \<Rightarrow> v | None \<Rightarrow> JUndefined)"
| "get_prop v k = Inr JUndefined"

text \<open>Assignment \<open>obj[k] = v\<close>: an existing property keeps its place.\<close>

fun obj_set :: "(string \<times> jsval) list \<Rightarrow> string \<Rightarrow> jsval \<Rightarrow> (string \<times> jsval) list" where
  "obj_set [] k v = [(k, v)]"
| "obj_set ((k', v') # ps) k v = (if k' = k then (k, v) # ps else (k', v') # obj_set ps k v)"

section \<open>Collaborators\<close>

text \<open>
  What the module requires and this repository's sources do not define is a parameter:
  the configured base URL, the clock, the URL parser, JSON serialisation, the hash, the
  signature scheme, the HTTP client, the key generator, the actor store's assertion, and
  the event loop: \<open>io_order\<close> is the order in which the deliveries to a list of inboxes,
  numbered from 0, come to their end once they wait for the store or the network.
\<close>

type_synonym headers = "(string \<times> jsval) list"

record keypair =
  publicKey :: string
  privateKey :: string

text \<open>
  The fields \<open>user.getUserFields(id, ['inbox', 'sharedInbox'])\<close> returns: strings of the
  user store, \<open>None\<close> where the field is \<open>undefined\<close> or \<open>null\<close>.
\<close>

record user_fields =
  inbox :: "string option"
  sharedInbox :: "string option"

type_synonym users = "string \<Rightarrow> user_fields"

record env =
  nconf_url :: string
  date_now :: string
  parse_url :: "string \<Rightarrow> (string \<times> string) option"
  json_stringify :: "jsval \<Rightarrow> string"
  sha256_base64 :: "string \<Rightarrow> string"
  rsa_sign :: "string \<Rightarrow> string \<Rightarrow> error + string"
  rsa_verify :: "jsval \<Rightarrow> string \<Rightarrow> jsval \<Rightarrow> error + bool"
  request_get :: "jsval \<Rightarrow> headers \<Rightarrow> error + (nat \<times> jsval)"
  request_post :: "string \<Rightarrow> headers \<Rightarrow> jsval \<Rightarrow> error + nat"
  generate_key_pair :: "nat \<Rightarrow> keypair"
  actors_assert :: "string list \<Rightarrow> users \<Rightarrow> error + users"
  io_order :: "string list \<Rightarrow> nat list"

text \<open>
  The network requests an operation issues. Those of \<open>send\<close> are listed delivery by
  delivery, in the order of the inboxes; the order in time is the event loop's.
\<close>

datatype request =
    Get jsval headers
  | Post string headers jsval

definition accept_type :: string where
  "accept_type = ''application/ld+json; profile='' @ [dq] @ ''https://www.w3.org/ns/activitystreams'' @ [dq]"

text \<open>\<open>String(response.statusCode).startsWith('2')\<close>\<close>

definition status_ok :: "nat \<Rightarrow> bool" where
  "status_ok sc = starts_with (string_of_nat sc) ''2''"

section \<open>fetchPublicKey\<close>

definition fetchPublicKey :: "env \<Rightarrow> jsval \<Rightarrow> (error + jsval) \<times> request list" where
  "fetchPublicKey e uri =
     (let hs = [(''Accept'', JStr accept_type)]; tr = [Get uri hs] in
      case request_get e uri hs of
        Inl err \<Rightarrow> (Inl err, tr)
      | Inr (sc, body) \<Rightarrow>
          if \<not> status_ok sc then (Inl PubKeyNotFound, tr)
          else (case hasOwnProperty body ''publicKey'' of
                  Inl err \<Rightarrow> (Inl err, tr)
                | Inr False \<Rightarrow> (Inl PubKeyNotFound, tr)
                | Inr True \<Rightarrow> (get_prop body ''publicKey'', tr)))"

section \<open>verify\<close>

text \<open>
  The inbound request, as the HTTP layer hands it over. Header names are lower case and
  header values are strings. \<open>verify\<close> reads the method, the base path, the path and
  the headers; the body is part of the request and is not read.
\<close>

record inbound =
  req_method :: string
  req_baseUrl :: string
  req_path :: string
  req_headers :: "string \<rightharpoonup> string"
  req_body :: jsval

text \<open>
  Breaking the signature header apart: the reduce over \<open>split(',')\<close>. Each piece is cut
  at its first \<open>="\<close>: \<open>shift\<close> takes the key, the rest is joined again and loses its
  last character. \<open>split\<close> never returns an empty array; on one, \<open>shift\<close> would give
  \<open>undefined\<close>. Assigning a string to \<open>__proto__\<close> on the accumulator creates no
  property.
\<close>

definition parse_piece :: "(string \<rightharpoonup> string) \<Rightarrow> string \<Rightarrow> (string \<rightharpoonup> string)" where
  "parse_piece memo cur =
     (case split_js cur [CHR ''='', dq] of
        key # split \<Rightarrow>
          (let val = join_js split [CHR ''='', dq]
           in if key = ''__proto__'' then memo else memo(key \<mapsto> butlast val))
      | [] \<Rightarrow> memo(''undefined'' \<mapsto> []))"

definition parse_signature :: "string \<Rightarrow> (string \<rightharpoonup> string)" where
  "parse_signature s = foldl parse_piece Map.empty (split_js s '','')"

definition rebuild_step :: "inbound \<Rightarrow> string list \<Rightarrow> string \<Rightarrow> string list" where
  "rebuild_step req memo cur =
     (if cur = ''(request-target)''
      then memo @ [cur @ '': '' @ toLowerCase (req_method req) @ '' '' @ req_baseUrl req @ req_path req]
      else (case req_headers req cur of
              Some v \<Rightarrow> memo @ [cur @ '': '' @ v]
            | None \<Rightarrow> memo))"

definition rebuild_signed_string :: "inbound \<Rightarrow> string \<Rightarrow> string" where
  "rebuild_signed_string req hs = join_js (foldl (rebuild_step req) [] (split_js hs '' '')) [nl]"

definition opt_str :: "string option \<Rightarrow> jsval" where
  "opt_str x = (case x of None \<Rightarrow> JUndefined | Some s \<Rightarrow> JStr s)"

definition verify :: "env \<Rightarrow> inbound \<Rightarrow> (error + bool) \<times> request list" where
  "verify e req =
     (case req_headers req ''signature'' of
        None \<Rightarrow> (Inr False, [])
      | Some sv \<Rightarrow>
          (let memo = parse_signature sv;
               keyId = memo ''keyId'';
               hs = memo ''headers'';
               signature = memo ''signature''
           in case hs of
                None \<Rightarrow> (Inl TypeError, [])
              | Some h \<Rightarrow>
                  (let signed_string = rebuild_signed_string req h in
                   case fetchPublicKey e (opt_str keyId) of
                     (Inl err, tr) \<Rightarrow> (Inr False, tr)
                   | (Inr pk, tr) \<Rightarrow>
                       (case get_prop pk ''publicKeyPem'' of
                          Inl err \<Rightarrow> (Inr False, tr)
                        | Inr pem \<Rightarrow>
                            (case rsa_verify e pem signed_string (opt_str signature) of
                               Inl err \<Rightarrow> (Inr False, tr)
                             | Inr b \<Rightarrow> (Inr b, tr))))))"

section \<open>Persistent state\<close>

text \<open>
  The database objects \<open>uid:<uid>:keys\<close>, the reads the store rejects at present, the
  number of key pairs generated so far (the generator's source of randomness), the user
  store and the live entries of the request cache.
\<close>

record state =
  db_keys :: "string \<rightharpoonup> keypair"
  db_faults :: "string \<rightharpoonup> error"
  generated :: nat
  user_store :: users
  requestCache :: "string \<rightharpoonup> jsval"

section \<open>Keystore\<close>

definition keys_key :: "int \<Rightarrow> string" where
  "keys_key uid = ''uid:'' @ string_of_int uid @ '':keys''"

text \<open>
  Modelled from the spec: \<open>db.getObject\<close> (\<open>src/database\<close>) is not among the sources. The
  spec has it "keyed by \<open>uid:<identity>:keys\<close> returning \<open>{publicKey, privateKey}\<close>,
  throwing/rejecting when absent", and has the storage possibly "unreachable". The answer
  to a read is a rejection, the absent object, or the stored pair.
\<close>

definition db_getObject :: "state \<Rightarrow> string \<Rightarrow> error + keypair option" where
  "db_getObject st key =
     (case db_faults st key of Some err \<Rightarrow> Inl err | None \<Rightarrow> Inr (db_keys st key))"

text \<open>
  Modelled from the spec: \<open>ActivityPub.helpers.generateKeys\<close> (\<open>src/activitypub/helpers.js\<close>)
  is not among the sources. The spec has the pair "generated lazily and persisted by the
  external data store", both accessors taking "the corresponding half of the freshly
  generated pair". The write replaces what the store holds under the key.
\<close>

definition generateKeys :: "env \<Rightarrow> state \<Rightarrow> int \<Rightarrow> keypair \<times> state" where
  "generateKeys e st uid =
     (let kp = generate_key_pair e (generated st)
      in (kp, st\<lparr>db_keys := (db_keys st)(keys_key uid \<mapsto> kp), generated := Suc (generated st)\<rparr>))"

text \<open>
  The accessors await the read. What runs when its answer arrives is the \<open>resume\<close>
  function, on the state as it is by then: a found pair is destructured, and every
  failure inside the \<open>try\<close>, the rejected read as well as the absent object, is caught
  and generates. The accessor itself is the read and the resumption with nothing in
  between.
\<close>

definition getPublicKey_resume ::
  "env \<Rightarrow> error + keypair option \<Rightarrow> state \<Rightarrow> int \<Rightarrow> string \<times> state" where
  "getPublicKey_resume e answer st uid =
     (case answer of
        Inr (Some kp) \<Rightarrow> (publicKey kp, st)
      | Inr None \<Rightarrow> (let (kp, st') = generateKeys e st uid in (publicKey kp, st'))
      | Inl err \<Rightarrow> (let (kp, st') = generateKeys e st uid in (publicKey kp, st')))"

definition getPublicKey :: "env \<Rightarrow> state \<Rightarrow> int \<Rightarrow> string \<times> state" where
  "getPublicKey e st uid = getPublicKey_resume e (db_getObject st (keys_key uid)) st uid"

definition getPrivateKey_resume ::
  "env \<Rightarrow> error + keypair option \<Rightarrow> state \<Rightarrow> int \<Rightarrow> string \<times> state" where
  "getPrivateKey_resume e answer st uid =
     (case answer of
        Inr (Some kp) \<Rightarrow> (privateKey kp, st)
      | Inr None \<Rightarrow> (let (kp, st') = generateKeys e st uid in (privateKey kp, st'))
      | Inl err \<Rightarrow> (let (kp, st') = generateKeys e st uid in (privateKey kp, st')))"

definition getPrivateKey :: "env \<Rightarrow> state \<Rightarrow> int \<Rightarrow> string \<times> state" where
  "getPrivateKey e st uid = getPrivateKey_resume e (db_getObject st (keys_key uid)) st uid"

section \<open>sign\<close>

record sig_header =
  sh_date :: string
  sh_digest :: "string option"
  sh_signature :: string

definition keyId_of :: "env \<Rightarrow> int \<Rightarrow> string" where
  "keyId_of e uid =
     nconf_url e @ (if uid > 0 then ''/uid/'' @ string_of_int uid else ''/actor'') @ ''#key''"

definition payload_digest :: "env \<Rightarrow> jsval \<Rightarrow> string option" where
  "payload_digest e payload =
     (if truthy payload then Some (''sha-256='' @ sha256_base64 e (json_stringify e payload))
      else None)"

definition signed_headers :: "jsval \<Rightarrow> string" where
  "signed_headers payload =
     ''(request-target) host date'' @ (if truthy payload then '' digest'' else [])"

definition signing_string :: "env \<Rightarrow> string \<Rightarrow> string \<Rightarrow> string \<Rightarrow> jsval \<Rightarrow> string" where
  "signing_string e host pathname date payload =
     ''(request-target): '' @ (if truthy payload then ''post'' else ''get'') @ '' '' @ pathname
       @ [nl] @ ''host: '' @ host @ [nl] @ ''date: '' @ date
       @ (case payload_digest e payload of
            Some digest \<Rightarrow> [nl] @ ''digest: '' @ digest
          | None \<Rightarrow> [])"

definition signature_value :: "string \<Rightarrow> string \<Rightarrow> string \<Rightarrow> string" where
  "signature_value keyId hs sg =
     ''keyId='' @ [dq] @ keyId @ [dq] @ '',headers='' @ [dq] @ hs @ [dq]
       @ '',signature='' @ [dq] @ sg @ [dq]"

text \<open>
  \<open>sign\<close> up to its first \<open>await\<close>. The identity is an integer here, so
  \<open>utils.isNumber(uid)\<close> holds and \<open>parseInt(uid, 10)\<close> is \<open>uid\<close>; \<open>new URL(url)\<close>
  raises on what it cannot parse. A failure here rejects at once, before the key is read.
\<close>

definition sign_start :: "env \<Rightarrow> int \<Rightarrow> string \<Rightarrow> error + string \<times> string" where
  "sign_start e uid url =
     (if uid < 0 then Inl InvalidUid
      else case parse_url e url of
        None \<Rightarrow> Inl TypeError
      | Some (host, pathname) \<Rightarrow> Inr (host, pathname))"

text \<open>\<open>sign\<close> from the answer to the read of the key on.\<close>

definition sign_resume ::
  "env \<Rightarrow> error + keypair option \<Rightarrow> state \<Rightarrow> int \<Rightarrow> string \<times> string \<Rightarrow> jsval
    \<Rightarrow> (error + sig_header) \<times> state" where
  "sign_resume e answer st uid target payload =
     (case target of (host, pathname) \<Rightarrow>
        (let date = date_now e;
             (key, st') = getPrivateKey_resume e answer st uid;
             keyId = keyId_of e uid;
             digest = payload_digest e payload;
             hs = signed_headers payload;
             signed_string = signing_string e host pathname date payload
         in case rsa_sign e key signed_string of
              Inl err \<Rightarrow> (Inl err, st')
            | Inr sg \<Rightarrow>
                (Inr \<lparr>sh_date = date, sh_digest = digest,
                      sh_signature = signature_value keyId hs sg\<rparr>, st')))"

definition sign :: "env \<Rightarrow> state \<Rightarrow> int \<Rightarrow> string \<Rightarrow> jsval \<Rightarrow> (error + sig_header) \<times> state" where
  "sign e st uid url payload =
     (case sign_start e uid url of
        Inl err \<Rightarrow> (Inl err, st)
      | Inr target \<Rightarrow> sign_resume e (db_getObject st (keys_key uid)) st uid target payload)"

text \<open>The object \<open>sign\<close> returns, spread into a request's headers.\<close>

definition sig_props :: "sig_header \<Rightarrow> headers" where
  "sig_props h =
     [(''date'', JStr (sh_date h)),
      (''digest'', (case sh_digest h of None \<Rightarrow> JNull | Some d \<Rightarrow> JStr d)),
      (''signature'', JStr (sh_signature h))]"

section \<open>get\<close>

definition get :: "env \<Rightarrow> state \<Rightarrow> int \<Rightarrow> string \<Rightarrow> (error + jsval) \<times> state \<times> request list" where
  "get e st uid uri =
     (let cacheKey = string_of_int uid @ '';'' @ uri in
      case requestCache st cacheKey of
        Some v \<Rightarrow> (Inr v, st, [])
      | None \<Rightarrow>
          (case (if uid \<ge> 0
                 then (case sign e st uid uri JUndefined of
                         (Inl err, st') \<Rightarrow> (Inl err, st')
                       | (Inr h, st') \<Rightarrow> (Inr (sig_props h), st'))
                 else (Inr [], st)) of
             (Inl err, st') \<Rightarrow> (Inl err, st', [])
           | (Inr hs, st') \<Rightarrow>
               (let rh = obj_set hs ''Accept'' (JStr accept_type); tr = [Get (JStr uri) rh] in
                case request_get e (JStr uri) rh of
                  Inl err \<Rightarrow> (Inl err, st', tr)
                | Inr (sc, body) \<Rightarrow>
                    if \<not> status_ok sc
                    then (case hasOwnProperty body ''error'' of
                            Inl err \<Rightarrow> (Inl err, st', tr)
                          | Inr _ \<Rightarrow> (Inl GetFailed, st', tr))
                    else (Inr body,
                          st'\<lparr>requestCache := (requestCache st')(cacheKey \<mapsto> body)\<rparr>, tr))))"

section \<open>resolveInboxes\<close>

text \<open>\<open>Set.prototype.add\<close>, the set as the list of its members in insertion order.\<close>

definition set_add :: "'a list \<Rightarrow> 'a \<Rightarrow> 'a list" where
  "set_add xs x = (if x \<in> set xs then xs else xs @ [x])"

text \<open>A field is truthy when it is a non-empty string; \<open>a || b\<close> is \<open>a\<close> when \<open>a\<close> is truthy.\<close>

definition truthy_field :: "string option \<Rightarrow> bool" where
  "truthy_field f = (case f of None \<Rightarrow> False | Some s \<Rightarrow> s \<noteq> [])"

definition js_or :: "string option \<Rightarrow> string option \<Rightarrow> string option" where
  "js_or a b = (if truthy_field a then a else b)"

definition add_inbox :: "users \<Rightarrow> string list \<Rightarrow> string \<Rightarrow> string list" where
  "add_inbox us inboxes ident =
     (let f = us ident in
      if truthy_field (js_or (sharedInbox f) (inbox f))
      then (case js_or (sharedInbox f) (inbox f) of
              Some uri \<Rightarrow> set_add inboxes uri
            | None \<Rightarrow> inboxes)
      else inboxes)"

definition resolveInboxes :: "env \<Rightarrow> state \<Rightarrow> string list \<Rightarrow> (error + string list) \<times> state" where
  "resolveInboxes e st ids =
     (case actors_assert e ids (user_store st) of
        Inl err \<Rightarrow> (Inl err, st)
      | Inr us \<Rightarrow> (Inr (foldl (add_inbox us) [] ids), st\<lparr>user_store := us\<rparr>))"

section \<open>send\<close>

datatype targets = One string | Many "string list"

text \<open>
  The own enumerable properties an object spread copies: those of an object, the indexed
  elements of an array or a string, none of any other value.
\<close>

fun indexed :: "nat \<Rightarrow> jsval list \<Rightarrow> (string \<times> jsval) list" where
  "indexed i [] = []"
| "indexed i (v # vs) = (string_of_nat i, v) # indexed (Suc i) vs"

fun own_props :: "jsval \<Rightarrow> (string \<times> jsval) list" where
  "own_props (JObj ps) = ps"
| "own_props (JArr vs) = indexed 0 vs"
| "own_props (JStr s) = indexed 0 (map (\<lambda>c. JStr [c]) s)"
| "own_props v = []"

text \<open>\<open>{...target, ...src}\<close>: every own key of the source is read and assigned.\<close>

definition spread :: "(string \<times> jsval) list \<Rightarrow> jsval \<Rightarrow> (string \<times> jsval) list" where
  "spread target src =
     foldl (\<lambda>acc k. obj_set acc k (case map_of (own_props src) k of Some v \<Rightarrow> v | None \<Rightarrow> JUndefined))
       target (map fst (own_props src))"

definition envelope :: "env \<Rightarrow> int \<Rightarrow> jsval \<Rightarrow> jsval" where
  "envelope e uid payload =
     JObj (spread [(''@context'', JStr ''https://www.w3.org/ns/activitystreams''),
                   (''actor'', JStr (nconf_url e @ ''/uid/'' @ string_of_int uid))] payload)"

text \<open>One delivery from the answer to its read of the key on: the rest of \<open>sign\<close>, the POST and the test of its status.\<close>

definition deliver_resume ::
  "env \<Rightarrow> error + keypair option \<Rightarrow> state \<Rightarrow> int \<Rightarrow> string \<Rightarrow> string \<times> string \<Rightarrow> jsval
    \<Rightarrow> (error + unit) \<times> state \<times> request list" where
  "deliver_resume e answer st uid uri target payload =
     (case sign_resume e answer st uid target payload of
        (Inl err, st') \<Rightarrow> (Inl err, st', [])
      | (Inr h, st') \<Rightarrow>
          (let hs = obj_set (sig_props h) ''content-type'' (JStr accept_type);
               tr = [Post uri hs payload]
           in case request_post e uri hs payload of
                Inl err \<Rightarrow> (Inl err, st', tr)
              | Inr sc \<Rightarrow>
                  if \<not> status_ok sc then (Inl ActivityFailed, st', tr) else (Inr (), st', tr)))"

text \<open>
  \<open>inboxes.map(async ...)\<close> starts every delivery before any of them goes on: each runs
  to the first \<open>await\<close> of its \<open>sign\<close>, where it has failed at once or has asked the
  store for the key. So every read is answered from the store as it was when \<open>map\<close> ran,
  \<open>snap\<close>, whatever the deliveries write afterwards; the store answers, and the
  deliveries resume, in the order of the inboxes. A delivery has an outcome and the mark
  of having failed at once; no delivery is stopped by the outcome of another.
\<close>

fun deliver_all ::
  "env \<Rightarrow> state \<Rightarrow> state \<Rightarrow> int \<Rightarrow> string list \<Rightarrow> jsval
    \<Rightarrow> ((error + unit) \<times> bool) list \<times> state \<times> request list" where
  "deliver_all e snap st uid [] payload = ([], st, [])"
| "deliver_all e snap st uid (uri # uris) payload =
     (case sign_start e uid uri of
        Inl err \<Rightarrow>
          (let (ds, st2, tr2) = deliver_all e snap st uid uris payload
           in ((Inl err, True) # ds, st2, tr2))
      | Inr target \<Rightarrow>
          (let (r, st1, tr1) =
                 deliver_resume e (db_getObject snap (keys_key uid)) st uid uri target payload;
               (ds, st2, tr2) = deliver_all e snap st1 uid uris payload
           in ((r, False) # ds, st2, tr1 @ tr2)))"

text \<open>
  The order in which \<open>n\<close> promises settle, from what the event loop reports: indices out
  of range and repetitions are dropped, and an index it leaves out comes last.
\<close>

definition normal_order :: "nat \<Rightarrow> nat list \<Rightarrow> nat list" where
  "normal_order n xs =
     remdups (filter (\<lambda>i. i < n) xs) @ filter (\<lambda>i. i \<notin> set xs) [0..<n]"

text \<open>
  The deliveries that failed at once settle first, in the order of the inboxes: their
  rejections are queued before the event loop takes up any answer of the store or the
  network. The others settle as the event loop has it.
\<close>

definition settle_order :: "env \<Rightarrow> string list \<Rightarrow> bool list \<Rightarrow> nat list" where
  "settle_order e inboxes at_once =
     (let n = length at_once
      in filter (\<lambda>i. at_once ! i) [0..<n]
         @ filter (\<lambda>i. \<not> at_once ! i) (normal_order n (io_order e inboxes)))"

text \<open>
  \<open>Promise.all\<close> on the outcomes in the order in which they settle: it rejects with the
  first rejection and fulfils when every promise has.
\<close>

fun promise_all :: "(error + 'a) list \<Rightarrow> error + 'a list" where
  "promise_all [] = Inr []"
| "promise_all (Inl err # rs) = Inl err"
| "promise_all (Inr v # rs) = (case promise_all rs of Inl err \<Rightarrow> Inl err | Inr vs \<Rightarrow> Inr (v # vs))"

definition send :: "env \<Rightarrow> state \<Rightarrow> int \<Rightarrow> targets \<Rightarrow> jsval \<Rightarrow> (error + unit) \<times> state \<times> request list" where
  "send e st uid tgts payload =
     (let ids = (case tgts of Many xs \<Rightarrow> xs | One x \<Rightarrow> [x]) in
      case resolveInboxes e st ids of
        (Inl err, st1) \<Rightarrow> (Inl err, st1, [])
      | (Inr inboxes, st1) \<Rightarrow>
          (let payload' = envelope e uid payload;
               (ds, st2, tr) = deliver_all e st1 st1 uid inboxes payload';
               settled = map (\<lambda>i. fst (ds ! i)) (settle_order e inboxes (map snd ds))
           in (case promise_all settled of Inl err \<Rightarrow> Inl err | Inr _ \<Rightarrow> Inr (), st2, tr)))"

section \<open>The spec's wording\<close>

text \<open>
  The inbox the spec selects for one identifier: "prefer \<open>sharedInbox\<close> over \<open>inbox\<close>; if
  neither present, contribute nothing". A field is present when it holds a non-empty
  string.
\<close>

definition preferred_inbox :: "user_fields \<Rightarrow> string option" where
  "preferred_inbox f =
     (case sharedInbox f of
        Some s \<Rightarrow> if s \<noteq> [] then Some s
                  else (case inbox f of Some i \<Rightarrow> if i \<noteq> [] then Some i else None | None \<Rightarrow> None)
      | None \<Rightarrow> (case inbox f of Some i \<Rightarrow> if i \<noteq> [] then Some i else None | None \<Rightarrow> None))"

section \<open>Traces\<close>

text \<open>The destinations of the POST requests of a trace, in order.\<close>

fun posted :: "request list \<Rightarrow> string list" where
  "posted [] = []"
| "posted (Post uri hs body # rs) = uri # posted rs"
| "posted (Get uri hs # rs) = posted rs"

section \<open>A test bed\<close>

text \<open>
  Stand-ins for the collaborators, small enough to compute with: a serialiser without
  escapes, the reversal for the hash, and a signature that spells the key's name and the
  message out, each character behind a marker, so that it contains no comma and differs
  for different messages.
\<close>

fun demo_stringify :: "jsval \<Rightarrow> string" where
  "demo_stringify JUndefined = ''undefined''"
| "demo_stringify JNull = ''null''"
| "demo_stringify (JBool b) = (if b then ''true'' else ''false'')"
| "demo_stringify (JNum n) = string_of_int n"
| "demo_stringify (JStr s) = [dq] @ s @ [dq]"
| "demo_stringify (JArr vs) = ''['' @ join_js (map demo_stringify vs) '','' @ '']''"
| "demo_stringify (JObj ps) =
     ''{'' @ join_js (map (\<lambda>(k, v). [dq] @ k @ [dq] @ '':'' @ demo_stringify v) ps) '','' @ ''}''"

definition spell :: "string \<Rightarrow> string" where
  "spell s = concat (map (\<lambda>c. if c = CHR '','' then ''~c'' else [CHR ''.'', c]) s)"

definition demo_rsa_sign :: "string \<Rightarrow> string \<Rightarrow> error + string" where
  "demo_rsa_sign key s = Inr (spell (drop 3 key @ '':'' @ s))"

definition demo_rsa_verify :: "jsval \<Rightarrow> string \<Rightarrow> jsval \<Rightarrow> error + bool" where
  "demo_rsa_verify pem s sg =
     (case (pem, sg) of
        (JStr p, JStr g) \<Rightarrow> Inr (g = spell (drop 3 p @ '':'' @ s))
      | _ \<Rightarrow> Inl (External ''invalid key or signature''))"

definition demo_env :: env where
  "demo_env =
     \<lparr>nconf_url = ''https://forum.example'',
      date_now = ''Tue, 03 Nov 2026 10:00:00 GMT'',
      parse_url = (\<lambda>u.
        if u = ''https://remote.example/inbox'' then Some (''remote.example'', ''/inbox'')
        else if u = ''https://other.example/inbox'' then Some (''other.example'', ''/inbox'')
        else if u = ''https://remote.example/users/alice''
          then Some (''remote.example'', ''/users/alice'')
        else None),
      json_stringify = demo_stringify,
      sha256_base64 = rev,
      rsa_sign = demo_rsa_sign,
      rsa_verify = demo_rsa_verify,
      request_get = (\<lambda>uri hs.
        if uri = JStr ''https://forum.example/uid/42#key''
        then Inr (200, JObj [(''publicKey'', JObj [(''publicKeyPem'', JStr ''PUB0'')])])
        else Inr (404, JObj [])),
      request_post = (\<lambda>uri hs body.
        if uri = ''https://remote.example/inbox'' then Inr 202 else Inr 500),
      generate_key_pair = (\<lambda>n.
        \<lparr>publicKey = ''PUB'' @ string_of_nat n, privateKey = ''KEY'' @ string_of_nat n\<rparr>),
      actors_assert = (\<lambda>ids us. Inr us),
      io_order = (\<lambda>inboxes. [0..<length inboxes])\<rparr>"

definition demo_users :: users where
  "demo_users ident =
     (if ident = ''https://remote.example/users/alice''
      then \<lparr>inbox = Some ''https://remote.example/users/alice/inbox'',
            sharedInbox = Some ''https://remote.example/inbox''\<rparr>
      else if ident = ''https://remote.example/users/bob''
      then \<lparr>inbox = Some ''https://remote.example/users/bob/inbox'',
            sharedInbox = Some ''https://remote.example/inbox''\<rparr>
      else if ident = ''https://other.example/users/carol''
      then \<lparr>inbox = Some ''https://other.example/inbox'', sharedInbox = None\<rparr>
      else if ident = ''https://broken.example/users/dave''
      then \<lparr>inbox = Some ''not a url'', sharedInbox = None\<rparr>
      else \<lparr>inbox = None, sharedInbox = None\<rparr>)"

definition demo_state :: state where
  "demo_state =
     \<lparr>db_keys = Map.empty, db_faults = Map.empty, generated = 0, user_store = demo_users,
      requestCache = Map.empty\<rparr>"


text \<open>A signature header that has a key id and a signature but no \<open>headers\<close> field.\<close>

definition malformed_request :: inbound where
  "malformed_request =
     \<lparr>req_method = ''POST'', req_baseUrl = [], req_path = ''/inbox'',
      req_headers = [''signature'' \<mapsto>
        ''keyId='' @ [dq] @ ''https://remote.example/actor#key'' @ [dq]
          @ '',signature='' @ [dq] @ ''c2ln'' @ [dq]],
      req_body = JNull\<rparr>"

text \<open>An activity whose payload names its own actor.\<close>

definition follow_payload :: jsval where
  "follow_payload = JObj [(''type'', JStr ''Follow''), (''actor'', JStr ''X'')]"

text \<open>
  A delivery of \<open>follow_payload\<close> to \<open>https://remote.example/inbox\<close> under the header
  that identity 42 signs for it, and the same payload with one byte changed.
\<close>

definition tampered_payload :: jsval where
  "tampered_payload = JObj [(''type'', JStr ''Follow''), (''actor'', JStr ''Y'')]"

definition demo_signed :: sig_header where
  "demo_signed =
     \<lparr>sh_date = ''Tue, 03 Nov 2026 10:00:00 GMT'',
      sh_digest = Some (''sha-256='' @ rev (demo_stringify follow_payload)),
      sh_signature =
        signature_value ''https://forum.example/uid/42#key'' ''(request-target) host date digest''
          (spell (''0:(request-target): post /inbox'' @ [nl] @ ''host: remote.example'' @ [nl]
             @ ''date: Tue, 03 Nov 2026 10:00:00 GMT'' @ [nl]
             @ ''digest: sha-256='' @ rev (demo_stringify follow_payload)))\<rparr>"

definition demo_delivery :: inbound where
  "demo_delivery =
     \<lparr>req_method = ''POST'', req_baseUrl = [], req_path = ''/inbox'',
      req_headers =
        [''host'' \<mapsto> ''remote.example'',
         ''date'' \<mapsto> sh_date demo_signed,
         ''digest'' \<mapsto> ''sha-256='' @ rev (demo_stringify follow_payload),
         ''signature'' \<mapsto> sh_signature demo_signed],
      req_body = follow_payload\<rparr>"

section \<open>Status codes\<close>

lemma digit_char_two: "d < 10 \<Longrightarrow> (digit_char d = CHR ''2'') = (d = 2)"
proof -
  assume "d < 10"
  then have "d \<in> {0, 1, 2, 3, 4, 5, 6, 7, 8, 9}" by auto
  then show ?thesis by (auto simp: digit_char_def)
qed

text \<open>On the three-digit codes of HTTP, the test of the source is the class 2xx.\<close>

lemma hundreds_digit:
  "((sc::nat) div 10 div 10 = 2) = (200 \<le> sc \<and> sc \<le> 299)"
proof -
  have "(sc div 10 div 10 = 2) = (2 \<le> sc div 10 div 10 \<and> sc div 10 div 10 < 3)"
    by auto
  also have "\<dots> = (200 \<le> sc \<and> sc < 300)"
    by (simp add: less_eq_div_iff_mult_less_eq div_less_iff_less_mult)
  finally show ?thesis by auto
qed

lemma status_ok_three_digits:
  assumes "100 \<le> sc" and "sc \<le> 999"
  shows "status_ok sc \<longleftrightarrow> 200 \<le> sc \<and> sc \<le> 299"
proof -
  define h where "h = sc div 10 div 10"
  have d: "sc div 10 \<ge> 10" "h < 10"
    using assms unfolding h_def
    by (simp_all add: less_eq_div_iff_mult_less_eq div_less_iff_less_mult)
  have "string_of_nat sc = [digit_char h, digit_char (sc div 10 mod 10), digit_char (sc mod 10)]"
    using d unfolding h_def
    by (subst string_of_nat.simps, subst string_of_nat.simps, subst string_of_nat.simps) simp
  then show ?thesis using d digit_char_two [of h] hundreds_digit [of sc]
    by (simp add: status_ok_def starts_with_def h_def)
qed

section \<open>Verifier: the early exits\<close>

text \<open>
  C3. A request whose header map has no \<open>signature\<close> key is answered \<open>false\<close>, and no
  network request is issued: the trace of \<open>verify\<close> is empty.
\<close>

theorem verify_without_signature:
  "req_headers req ''signature'' = None \<Longrightarrow> verify e req = (Inr False, [])"
  by (simp add: verify_def)

theorem verify_without_signature_witness:
  "verify demo_env
     \<lparr>req_method = ''POST'', req_baseUrl = [], req_path = ''/inbox'',
      req_headers = [''host'' \<mapsto> ''forum.example''], req_body = JNull\<rparr> = (Inr False, [])"
  using verify_without_signature [of
     "\<lparr>req_method = ''POST'', req_baseUrl = [], req_path = ''/inbox'',
       req_headers = [''host'' \<mapsto> ''forum.example''], req_body = JNull\<rparr>" demo_env]
  by simp

lemma verify_headers_field_missing:
  "req_headers req ''signature'' = Some sv \<Longrightarrow> parse_signature sv ''headers'' = None \<Longrightarrow>
   verify e req = (Inl TypeError, [])"
  by (simp add: verify_def)

text \<open>
  C2. The claim has \<open>verify\<close> return \<open>false\<close> on every malformed signature header. On a
  header without a \<open>headers\<close> field the source calls \<open>split\<close> on \<open>undefined\<close>, outside its
  \<open>try\<close> block: \<open>verify\<close> raises a TypeError, whatever the collaborators are.
\<close>

theorem verify_raises_on_missing_headers_field:
  "verify e malformed_request = (Inl TypeError, [])"
  by (simp add: verify_def malformed_request_def parse_signature_def parse_piece_def
      split_js_def starts_with_def)

section \<open>Remote key resolver\<close>

lemma fetchPublicKey_object_body:
  assumes "request_get e uri [(''Accept'', JStr accept_type)] = Inr (sc, JObj ps)"
    and "map_of ps ''hasOwnProperty'' = None"
  shows "fst (fetchPublicKey e uri) =
           (case map_of ps ''publicKey'' of
              None \<Rightarrow> Inl PubKeyNotFound
            | Some v \<Rightarrow> if status_ok sc then Inr v else Inl PubKeyNotFound)"
  using assms by (auto simp: fetchPublicKey_def Let_def split: option.splits)

lemma verify_catches_fetch_failure:
  assumes "req_headers req ''signature'' = Some sv"
    and "parse_signature sv ''headers'' = Some h"
    and "fst (fetchPublicKey e (opt_str (parse_signature sv ''keyId''))) = Inl err"
  shows "fst (verify e req) = Inr False"
proof -
  obtain tr where "fetchPublicKey e (opt_str (parse_signature sv ''keyId'')) = (Inl err, tr)"
    using assms(3) by (cases "fetchPublicKey e (opt_str (parse_signature sv ''keyId''))") simp
  then show ?thesis using assms(1,2) by (simp add: verify_def)
qed

text \<open>
  C8. The claim has \<open>fetchPublicKey\<close> fail with "public key not found" whenever the body
  lacks a \<open>publicKey\<close> field. On a 200 response whose JSON body is \<open>null\<close> the source
  calls \<open>hasOwnProperty\<close> on \<open>null\<close>: the failure is a TypeError.
\<close>

theorem fetchPublicKey_null_body:
  "fetchPublicKey (demo_env\<lparr>request_get := \<lambda>uri hs. Inr (200, JNull)\<rparr>) uri =
     (Inl TypeError, [Get uri [(''Accept'', JStr accept_type)]])"
  by (simp add: fetchPublicKey_def status_ok_def starts_with_def digit_char_def
      string_of_nat.simps)

section \<open>Keystore\<close>

lemma getPublicKey_found:
  "db_getObject st (keys_key uid) = Inr (Some kp) \<Longrightarrow> getPublicKey e st uid = (publicKey kp, st)"
  by (simp add: getPublicKey_def getPublicKey_resume_def)

lemma getPrivateKey_found:
  "db_getObject st (keys_key uid) = Inr (Some kp) \<Longrightarrow> getPrivateKey e st uid = (privateKey kp, st)"
  by (simp add: getPrivateKey_def getPrivateKey_resume_def)

text \<open>
  What holds of lookups that run one after the other on a store that answers its reads:
  the second finds the pair the first left.
\<close>

lemma lookups_in_turn:
  assumes "db_faults st (keys_key uid) = None"
  shows "\<exists>kp::keypair. fst (getPublicKey e st uid) = publicKey kp
           \<and> getPrivateKey e (snd (getPublicKey e st uid)) uid
               = (privateKey kp, snd (getPublicKey e st uid))"
proof (cases "db_keys st (keys_key uid)")
  case None
  define kp where "kp = generate_key_pair e (generated st)"
  from None assms have g: "getPublicKey e st uid
      = (publicKey kp, st\<lparr>db_keys := (db_keys st)(keys_key uid \<mapsto> kp),
                           generated := Suc (generated st)\<rparr>)"
    by (simp add: getPublicKey_def getPublicKey_resume_def db_getObject_def generateKeys_def
        kp_def Let_def)
  have "db_getObject (snd (getPublicKey e st uid)) (keys_key uid) = Inr (Some kp)"
    using assms by (simp add: g db_getObject_def)
  from getPrivateKey_found [OF this] g show ?thesis by auto
next
  case (Some kp)
  with assms have f: "db_getObject st (keys_key uid) = Inr (Some kp)"
    by (simp add: db_getObject_def)
  from getPublicKey_found [OF f] getPrivateKey_found [OF f] show ?thesis by auto
qed


section \<open>Envelope\<close>

lemma map_of_obj_set: "map_of (obj_set ps k v) = (map_of ps)(k \<mapsto> v)"
  by (induction ps) (auto simp: fun_eq_iff)

lemma map_of_assign_all:
  "map_of (foldl (\<lambda>acc k. obj_set acc k (f k)) target ks) k =
     (if k \<in> set ks then Some (f k) else map_of target k)"
  by (induction ks arbitrary: target) (auto simp: map_of_obj_set)

lemma map_of_spread:
  "map_of (spread target src) k =
     (case map_of (own_props src) k of Some v \<Rightarrow> Some v | None \<Rightarrow> map_of target k)"
proof (cases "map_of (own_props src) k")
  case None
  then have "k \<notin> set (map fst (own_props src))"
    by (simp add: map_of_eq_None_iff)
  with None show ?thesis
    unfolding spread_def map_of_assign_all by simp
next
  case (Some v)
  then have "k \<in> set (map fst (own_props src))"
    by (metis map_of_eq_None_iff option.distinct(1) set_map)
  with Some show ?thesis
    unfolding spread_def map_of_assign_all by simp
qed

lemma deliver_resume_trace:
  "r \<in> set (snd (snd (deliver_resume e answer st uid uri target payload))) \<Longrightarrow>
   \<exists>hs. r = Post uri hs payload"
  by (auto simp: deliver_resume_def Let_def split: prod.splits sum.splits if_splits)

lemma deliver_all_trace:
  "r \<in> set (snd (snd (deliver_all e snap st uid uris payload))) \<Longrightarrow>
   \<exists>uri hs. uri \<in> set uris \<and> r = Post uri hs payload"
proof (induction uris arbitrary: st)
  case Nil
  then show ?case by simp
next
  case (Cons u us)
  show ?case
  proof (cases "sign_start e uid u")
    case (Inl err)
    with Cons.prems have "r \<in> set (snd (snd (deliver_all e snap st uid us payload)))"
      by (simp add: split_beta)
    with Cons.IH [of st] show ?thesis by auto
  next
    case (Inr target)
    define answer where "answer = db_getObject snap (keys_key uid)"
    obtain r1 st1 tr1 where d: "deliver_resume e answer st uid u target payload = (r1, st1, tr1)"
      by (cases "deliver_resume e answer st uid u target payload")
    obtain ds st2 tr2 where da: "deliver_all e snap st1 uid us payload = (ds, st2, tr2)"
      by (cases "deliver_all e snap st1 uid us payload")
    from Cons.prems Inr d da have "r \<in> set tr1 \<or> r \<in> set tr2"
      by (simp add: answer_def)
    then show ?thesis
    proof
      assume "r \<in> set tr1"
      with deliver_resume_trace [of r e answer st uid u target payload] d show ?thesis by auto
    next
      assume "r \<in> set tr2"
      with Cons.IH [of st1] da show ?thesis by auto
    qed
  qed
qed

lemma send_trace:
  "r \<in> set (snd (snd (send e st uid tgts payload))) \<Longrightarrow>
   \<exists>uri hs. r = Post uri hs (envelope e uid payload)"
proof -
  assume a: "r \<in> set (snd (snd (send e st uid tgts payload)))"
  define ids where "ids = (case tgts of Many xs \<Rightarrow> xs | One x \<Rightarrow> [x])"
  obtain res st1 where ri: "resolveInboxes e st ids = (res, st1)"
    by (cases "resolveInboxes e st ids")
  show ?thesis
  proof (cases res)
    case (Inl err)
    with a ri show ?thesis by (simp add: send_def ids_def)
  next
    case (Inr inboxes)
    with a ri
    have "r \<in> set (snd (snd (deliver_all e st1 st1 uid inboxes (envelope e uid payload))))"
      by (simp add: send_def ids_def Let_def split_beta)
    from deliver_all_trace [OF this] show ?thesis by blast
  qed
qed

text \<open>
  C5. Every field of the caller's payload keeps its value in the envelope, \<open>actor\<close> and
  \<open>@context\<close> included; the injected values stand only where the payload has no such
  field; and every POST that \<open>send\<close> issues carries that envelope as its body.
\<close>

theorem envelope_payload_wins:
  "(\<forall>k v. map_of (own_props payload) k = Some v \<longrightarrow>
       get_prop (envelope e uid payload) k = Inr v)
   \<and> get_prop (envelope e uid (JObj [(''actor'', JStr x)])) ''actor'' = Inr (JStr x)
   \<and> (map_of (own_props payload) ''actor'' = None \<longrightarrow>
        get_prop (envelope e uid payload) ''actor''
          = Inr (JStr (nconf_url e @ ''/uid/'' @ string_of_int uid)))
   \<and> (map_of (own_props payload) ''@context'' = None \<longrightarrow>
        get_prop (envelope e uid payload) ''@context''
          = Inr (JStr ''https://www.w3.org/ns/activitystreams''))
   \<and> (\<forall>r \<in> set (snd (snd (send e st uid tgts payload))).
        \<exists>uri hs. r = Post uri hs (envelope e uid payload))"
proof (intro conjI allI impI ballI)
  fix k v assume "map_of (own_props payload) k = Some v"
  then show "get_prop (envelope e uid payload) k = Inr v"
    by (simp add: envelope_def map_of_spread)
next
  show "get_prop (envelope e uid (JObj [(''actor'', JStr x)])) ''actor'' = Inr (JStr x)"
    by (simp add: envelope_def map_of_spread)
next
  assume "map_of (own_props payload) ''actor'' = None"
  then show "get_prop (envelope e uid payload) ''actor''
          = Inr (JStr (nconf_url e @ ''/uid/'' @ string_of_int uid))"
    by (simp add: envelope_def map_of_spread)
next
  assume "map_of (own_props payload) ''@context'' = None"
  then show "get_prop (envelope e uid payload) ''@context''
          = Inr (JStr ''https://www.w3.org/ns/activitystreams'')"
    by (simp add: envelope_def map_of_spread)
next
  fix r assume "r \<in> set (snd (snd (send e st uid tgts payload)))"
  then show "\<exists>uri hs. r = Post uri hs (envelope e uid payload)"
    by (rule send_trace)
qed

theorem envelope_payload_wins_witness:
  "get_prop (envelope demo_env 42 follow_payload) ''actor'' = Inr (JStr ''X'')
   \<and> get_prop (envelope demo_env 42 follow_payload) ''@context''
       = Inr (JStr ''https://www.w3.org/ns/activitystreams'')
   \<and> (\<exists>hs. snd (snd (send demo_env demo_state 42 (One ''https://remote.example/users/alice'')
          follow_payload))
        = [Post ''https://remote.example/inbox'' hs (envelope demo_env 42 follow_payload)])"
proof -
  define tr where "tr = snd (snd (send demo_env demo_state 42
    (One ''https://remote.example/users/alice'') follow_payload))"
  have a: "map_of (own_props follow_payload) ''actor'' = Some (JStr ''X'')"
    and c: "map_of (own_props follow_payload) ''@context'' = None"
    by (simp_all add: follow_payload_def)
  have p: "posted tr = [''https://remote.example/inbox'']"
    unfolding tr_def by code_simp
  note w = envelope_payload_wins [of follow_payload demo_env 42 "''X''" demo_state
      "One ''https://remote.example/users/alice''"]
  from w have b: "\<forall>r \<in> set tr. \<exists>uri hs. r = Post uri hs (envelope demo_env 42 follow_payload)"
    unfolding tr_def by blast
  obtain r rs where tr: "tr = r # rs"
    using p by (cases tr) auto
  with b obtain uri hs where r: "r = Post uri hs (envelope demo_env 42 follow_payload)"
    by auto
  with p tr have u: "uri = ''https://remote.example/inbox''" and e: "posted rs = []"
    by simp_all
  have "rs = []"
  proof (cases rs)
    case Nil
    then show ?thesis .
  next
    case (Cons r' rs')
    with b tr obtain uri' hs' where "r' = Post uri' hs' (envelope demo_env 42 follow_payload)"
      by auto
    with e Cons show ?thesis by simp
  qed
  with tr r u have "tr = [Post ''https://remote.example/inbox'' hs
      (envelope demo_env 42 follow_payload)]"
    by simp
  then have t: "\<exists>hs. tr = [Post ''https://remote.example/inbox'' hs
      (envelope demo_env 42 follow_payload)]" ..
  from w a c have "get_prop (envelope demo_env 42 follow_payload) ''actor'' = Inr (JStr ''X'')"
    and "get_prop (envelope demo_env 42 follow_payload) ''@context''
       = Inr (JStr ''https://www.w3.org/ns/activitystreams'')"
    by simp_all
  with t show ?thesis unfolding tr_def by simp
qed

section \<open>Inbox resolver\<close>

lemma add_inbox_preferred:
  "add_inbox us acc ident =
     (case preferred_inbox (us ident) of Some uri \<Rightarrow> set_add acc uri | None \<Rightarrow> acc)"
  by (auto simp: add_inbox_def preferred_inbox_def js_or_def truthy_field_def Let_def
      split: option.splits)

lemma foldl_add_inbox:
  "distinct acc \<Longrightarrow>
   distinct (foldl (add_inbox us) acc ids)
   \<and> set (foldl (add_inbox us) acc ids)
       = set acc \<union> {uri. \<exists>i \<in> set ids. preferred_inbox (us i) = Some uri}"
proof (induction ids arbitrary: acc)
  case Nil
  then show ?case by simp
next
  case (Cons i ids)
  have d: "distinct (add_inbox us acc i)"
    using Cons.prems by (simp add: add_inbox_preferred set_add_def split: option.splits)
  have s: "set (add_inbox us acc i) = set acc \<union> {uri. preferred_inbox (us i) = Some uri}"
    by (auto simp: add_inbox_preferred set_add_def split: option.splits)
  from Cons.IH [OF d] s show ?case by auto
qed

text \<open>
  C6. Once the actors are asserted, \<open>resolveInboxes\<close> returns a list without
  duplicates whose members are exactly the preferred inboxes of the identifiers: the
  shared inbox when present, else the inbox when present, else none. Two identifiers with
  the same shared inbox resolve to that one endpoint.
\<close>

theorem resolveInboxes_deduplicates:
  assumes "actors_assert e ids (user_store st) = Inr us"
  shows "\<exists>xs. fst (resolveInboxes e st ids) = Inr xs
           \<and> distinct xs
           \<and> set xs = {uri. \<exists>i \<in> set ids. preferred_inbox (us i) = Some uri}
           \<and> (\<forall>a b s. ids = [a, b] \<and> sharedInbox (us a) = Some s
                 \<and> sharedInbox (us b) = Some s \<and> s \<noteq> [] \<longrightarrow> xs = [s])"
proof -
  define xs where "xs = foldl (add_inbox us) [] ids"
  have r: "fst (resolveInboxes e st ids) = Inr xs"
    using assms by (simp add: resolveInboxes_def xs_def)
  have d: "distinct xs"
    and s: "set xs = {uri. \<exists>i \<in> set ids. preferred_inbox (us i) = Some uri}"
    using foldl_add_inbox [of "[]" us ids] by (simp_all add: xs_def)
  have two: "\<forall>a b s. ids = [a, b] \<and> sharedInbox (us a) = Some s
                 \<and> sharedInbox (us b) = Some s \<and> s \<noteq> [] \<longrightarrow> xs = [s]"
    by (auto simp: xs_def add_inbox_preferred preferred_inbox_def set_add_def)
  from r d s two show ?thesis by blast
qed

theorem resolveInboxes_deduplicates_witness:
  "fst (resolveInboxes demo_env demo_state
          [''https://remote.example/users/alice'', ''https://remote.example/users/bob''])
     = Inr [''https://remote.example/inbox'']"
proof -
  have a: "actors_assert demo_env
             [''https://remote.example/users/alice'', ''https://remote.example/users/bob'']
             (user_store demo_state) = Inr demo_users"
    by (simp add: demo_env_def demo_state_def)
  have f: "sharedInbox (demo_users ''https://remote.example/users/alice'')
             = Some ''https://remote.example/inbox''"
    "sharedInbox (demo_users ''https://remote.example/users/bob'')
             = Some ''https://remote.example/inbox''"
    by (simp_all add: demo_users_def)
  from resolveInboxes_deduplicates [OF a] f show ?thesis by auto
qed

section \<open>Signer\<close>

lemma sign_resume_unfold:
  "sign_resume e answer st uid (host, pathname) payload =
     (case rsa_sign e (fst (getPrivateKey_resume e answer st uid))
             (signing_string e host pathname (date_now e) payload) of
        Inl err \<Rightarrow> (Inl err, snd (getPrivateKey_resume e answer st uid))
      | Inr sg \<Rightarrow>
          (Inr \<lparr>sh_date = date_now e, sh_digest = payload_digest e payload,
                sh_signature = signature_value (keyId_of e uid) (signed_headers payload) sg\<rparr>,
           snd (getPrivateKey_resume e answer st uid)))"
  by (simp add: sign_resume_def Let_def split_beta)

lemma sign_unfold:
  assumes "0 \<le> uid" and "parse_url e url = Some (host, pathname)"
  shows "sign e st uid url payload =
     (case rsa_sign e (fst (getPrivateKey e st uid))
             (signing_string e host pathname (date_now e) payload) of
        Inl err \<Rightarrow> (Inl err, snd (getPrivateKey e st uid))
      | Inr sg \<Rightarrow>
          (Inr \<lparr>sh_date = date_now e, sh_digest = payload_digest e payload,
                sh_signature = signature_value (keyId_of e uid) (signed_headers payload) sg\<rparr>,
           snd (getPrivateKey e st uid)))"
  using assms unfolding getPrivateKey_def
  by (simp add: sign_def sign_start_def sign_resume_unfold)

text \<open>
  C4. For a valid identity and a URL that parses, the string handed to the signature
  scheme is the three lines \<open>(request-target)\<close>, \<open>host\<close> and \<open>date\<close>, with method
  \<open>post\<close> and a fourth line \<open>digest\<close> exactly when the payload is truthy, and method
  \<open>get\<close> otherwise; the digest and the list of signed headers of the result follow the
  same case.
\<close>

theorem sign_signing_string:
  assumes "0 \<le> uid" and "parse_url e url = Some (host, pathname)"
  shows "fst (sign e st uid url payload) =
     (case rsa_sign e (fst (getPrivateKey e st uid))
             (if truthy payload
              then join_js [''(request-target): post '' @ pathname,
                            ''host: '' @ host,
                            ''date: '' @ date_now e,
                            ''digest: sha-256='' @ sha256_base64 e (json_stringify e payload)] [nl]
              else join_js [''(request-target): get '' @ pathname,
                            ''host: '' @ host,
                            ''date: '' @ date_now e] [nl]) of
        Inl err \<Rightarrow> Inl err
      | Inr sg \<Rightarrow>
          Inr \<lparr>sh_date = date_now e,
               sh_digest = (if truthy payload
                            then Some (''sha-256='' @ sha256_base64 e (json_stringify e payload))
                            else None),
               sh_signature =
                 ''keyId='' @ [dq] @ keyId_of e uid @ [dq] @ '',headers='' @ [dq]
                   @ (if truthy payload then ''(request-target) host date digest''
                      else ''(request-target) host date'') @ [dq]
                   @ '',signature='' @ [dq] @ sg @ [dq]\<rparr>)"
proof (cases "truthy payload")
  case True
  then show ?thesis
    unfolding sign_unfold [OF assms]
    by (simp add: signing_string_def payload_digest_def signed_headers_def signature_value_def
        split: sum.splits)
next
  case False
  then show ?thesis
    unfolding sign_unfold [OF assms]
    by (simp add: signing_string_def payload_digest_def signed_headers_def signature_value_def
        split: sum.splits)
qed

theorem sign_signing_string_witness:
  "fst (sign demo_env demo_state 42 ''https://remote.example/inbox'' follow_payload) =
     Inr \<lparr>sh_date = ''Tue, 03 Nov 2026 10:00:00 GMT'',
          sh_digest = Some (''sha-256='' @ rev (demo_stringify follow_payload)),
          sh_signature =
            ''keyId='' @ [dq] @ ''https://forum.example/uid/42#key'' @ [dq] @ '',headers='' @ [dq]
              @ ''(request-target) host date digest'' @ [dq] @ '',signature='' @ [dq]
              @ spell (''0:(request-target): post /inbox'' @ [nl] @ ''host: remote.example'' @ [nl]
                  @ ''date: Tue, 03 Nov 2026 10:00:00 GMT'' @ [nl]
                  @ ''digest: sha-256='' @ rev (demo_stringify follow_payload))
              @ [dq]\<rparr>
   \<and> fst (sign demo_env demo_state 0 ''https://remote.example/users/alice'' JUndefined) =
     Inr \<lparr>sh_date = ''Tue, 03 Nov 2026 10:00:00 GMT'',
          sh_digest = None,
          sh_signature =
            ''keyId='' @ [dq] @ ''https://forum.example/actor#key'' @ [dq] @ '',headers='' @ [dq]
              @ ''(request-target) host date'' @ [dq] @ '',signature='' @ [dq]
              @ spell (''0:(request-target): get /users/alice'' @ [nl]
                  @ ''host: remote.example'' @ [nl]
                  @ ''date: Tue, 03 Nov 2026 10:00:00 GMT'')
              @ [dq]\<rparr>"
proof -
  have u: "parse_url demo_env ''https://remote.example/inbox'' = Some (''remote.example'', ''/inbox'')"
    "parse_url demo_env ''https://remote.example/users/alice''
       = Some (''remote.example'', ''/users/alice'')"
    by (simp_all add: demo_env_def)
  have k: "fst (getPrivateKey demo_env demo_state 42) = ''KEY0''"
    "fst (getPrivateKey demo_env demo_state 0) = ''KEY0''"
    by code_simp+
  have t: "truthy follow_payload" by (simp add: follow_payload_def)
  have i: "keyId_of demo_env 42 = ''https://forum.example/uid/42#key''"
    "keyId_of demo_env 0 = ''https://forum.example/actor#key''"
    by code_simp+
  have e: "rsa_sign demo_env = demo_rsa_sign" "date_now demo_env = ''Tue, 03 Nov 2026 10:00:00 GMT''"
    "sha256_base64 demo_env = rev" "json_stringify demo_env = demo_stringify"
    by (simp_all add: demo_env_def)
  have "(0::int) \<le> 42" and "(0::int) \<le> 0" by simp_all
  from sign_signing_string [OF this(1) u(1), of demo_state follow_payload]
       sign_signing_string [OF this(2) u(2), of demo_state JUndefined]
  show ?thesis
    by (simp add: k t i e demo_rsa_sign_def)
qed

section \<open>Authenticated fetch\<close>

lemma sign_without_payload_digest:
  "fst (sign e st uid uri JUndefined) = Inr h \<Longrightarrow> sh_digest h = None"
  by (auto simp: sign_def sign_start_def sign_resume_def Let_def split_beta payload_digest_def
      split: if_splits option.splits sum.splits)

lemma get_unsigned:
  assumes "requestCache st (string_of_int uid @ '';'' @ uri) = None" and "uid < 0"
  shows "snd (snd (get e st uid uri)) = [Get (JStr uri) [(''Accept'', JStr accept_type)]]"
  using assms
  by (simp add: get_def Let_def split: sum.splits prod.splits)

lemma get_sign_failed:
  assumes "requestCache st (string_of_int uid @ '';'' @ uri) = None" and "0 \<le> uid"
    and "fst (sign e st uid uri JUndefined) = Inl err"
  shows "get e st uid uri = (Inl err, snd (sign e st uid uri JUndefined), [])"
proof -
  obtain st' where "sign e st uid uri JUndefined = (Inl err, st')"
    using assms(3) by (cases "sign e st uid uri JUndefined") simp
  then show ?thesis using assms(1,2) by (simp add: get_def)
qed

lemma get_signed:
  assumes "requestCache st (string_of_int uid @ '';'' @ uri) = None" and "0 \<le> uid"
    and "fst (sign e st uid uri JUndefined) = Inr h"
  shows "snd (snd (get e st uid uri)) =
           [Get (JStr uri) [(''date'', JStr (sh_date h)), (''digest'', JNull),
                            (''signature'', JStr (sh_signature h)),
                            (''Accept'', JStr accept_type)]]"
proof -
  obtain st' where "sign e st uid uri JUndefined = (Inr h, st')"
    using assms(3) by (cases "sign e st uid uri JUndefined") simp
  moreover have "sh_digest h = None"
    using assms(3) by (rule sign_without_payload_digest)
  ultimately show ?thesis using assms(1,2)
    by (simp add: get_def Let_def sig_props_def split: sum.splits prod.splits)
qed

text \<open>
  C10. On a cache miss, \<open>get\<close> with a negative identity issues one GET whose only
  header is \<open>Accept\<close>. With an identity of zero or more it signs first: when signing
  fails no request is issued, and otherwise the one GET carries the \<open>date\<close>, the null
  \<open>digest\<close> and the \<open>signature\<close> that \<open>sign\<close> returned, then \<open>Accept\<close>.
\<close>

theorem get_signs_unless_negative:
  assumes "requestCache st (string_of_int uid @ '';'' @ uri) = None"
  shows "(uid < 0 \<longrightarrow>
            snd (snd (get e st uid uri)) = [Get (JStr uri) [(''Accept'', JStr accept_type)]])
       \<and> (0 \<le> uid \<longrightarrow>
            (case fst (sign e st uid uri JUndefined) of
               Inl err \<Rightarrow> get e st uid uri = (Inl err, snd (sign e st uid uri JUndefined), [])
             | Inr h \<Rightarrow>
                 snd (snd (get e st uid uri)) =
                   [Get (JStr uri) [(''date'', JStr (sh_date h)), (''digest'', JNull),
                                    (''signature'', JStr (sh_signature h)),
                                    (''Accept'', JStr accept_type)]]))"
  using get_unsigned [OF assms] get_sign_failed [OF assms] get_signed [OF assms]
  by (simp split: sum.splits)

theorem get_signs_unless_negative_witness:
  "snd (snd (get demo_env demo_state (- 1) ''https://remote.example/users/alice''))
     = [Get (JStr ''https://remote.example/users/alice'') [(''Accept'', JStr accept_type)]]
   \<and> (\<exists>h. fst (sign demo_env demo_state 0 ''https://remote.example/users/alice'' JUndefined)
             = Inr h
          \<and> snd (snd (get demo_env demo_state 0 ''https://remote.example/users/alice''))
             = [Get (JStr ''https://remote.example/users/alice'')
                  [(''date'', JStr (sh_date h)), (''digest'', JNull),
                   (''signature'', JStr (sh_signature h)), (''Accept'', JStr accept_type)]])"
proof -
  have m: "requestCache demo_state (string_of_int i @ '';'' @ u) = None" for i u
    by (simp add: demo_state_def)
  have n: "(- 1 :: int) < 0" and z: "(0::int) \<le> 0" by simp_all
  obtain h where h: "fst (sign demo_env demo_state 0 ''https://remote.example/users/alice''
      JUndefined) = Inr h"
    by (simp add: sign_def sign_start_def sign_resume_def demo_env_def demo_rsa_sign_def
        Let_def split_beta)
  from get_signs_unless_negative [of demo_state "- 1" "''https://remote.example/users/alice''"
      demo_env] m n
  have a: "snd (snd (get demo_env demo_state (- 1) ''https://remote.example/users/alice''))
     = [Get (JStr ''https://remote.example/users/alice'') [(''Accept'', JStr accept_type)]]"
    by simp
  from get_signs_unless_negative [of demo_state 0 "''https://remote.example/users/alice''"
      demo_env] m z h
  have b: "snd (snd (get demo_env demo_state 0 ''https://remote.example/users/alice''))
             = [Get (JStr ''https://remote.example/users/alice'')
                  [(''date'', JStr (sh_date h)), (''digest'', JNull),
                   (''signature'', JStr (sh_signature h)), (''Accept'', JStr accept_type)]]"
    by simp
  from a b h show ?thesis by blast
qed

section \<open>Dispatcher: failures\<close>

lemma deliver_all_length: "length (fst (deliver_all e snap st uid uris payload)) = length uris"
  by (induction uris arbitrary: st) (simp_all add: split_beta split: sum.splits)

lemma deliver_all_at_once:
  "i < length uris \<Longrightarrow>
   snd (fst (deliver_all e snap st uid uris payload) ! i) = isl (sign_start e uid (uris ! i))"
proof (induction uris arbitrary: st i)
  case Nil
  then show ?case by simp
next
  case (Cons u us)
  show ?case
  proof (cases i)
    case 0
    then show ?thesis by (simp add: split_beta split: sum.splits)
  next
    case (Suc j)
    with Cons.prems have "j < length us" by simp
    from Cons.IH [OF this] Suc show ?thesis
      by (simp add: split_beta split: sum.splits)
  qed
qed

lemma sign_start_at_once:
  "isl (sign_start e uid url) = (uid < 0 \<or> parse_url e url = None)"
  by (auto simp: sign_start_def split: option.splits)

lemma deliver_resume_rejected:
  assumes "Post u hs b \<in> set (snd (snd (deliver_resume e answer st uid uri target payload)))"
    and "request_post e u hs b = Inr sc" and "\<not> status_ok sc"
  shows "u = uri \<and> fst (deliver_resume e answer st uid uri target payload) = Inl ActivityFailed"
proof -
  obtain r st' where s: "sign_resume e answer st uid target payload = (r, st')"
    by (cases "sign_resume e answer st uid target payload")
  show ?thesis
  proof (cases r)
    case (Inl err)
    with s assms(1) show ?thesis by (simp add: deliver_resume_def)
  next
    case (Inr h)
    with s assms(1) have "u = uri" "b = payload"
      "hs = obj_set (sig_props h) ''content-type'' (JStr accept_type)"
      by (auto simp: deliver_resume_def Let_def split: sum.splits if_splits)
    with s Inr assms(2,3) show ?thesis
      by (simp add: deliver_resume_def Let_def)
  qed
qed

lemma deliver_all_rejected:
  assumes "request_post e u hs b = Inr sc" and "\<not> status_ok sc"
  shows "Post u hs b \<in> set (snd (snd (deliver_all e snap st uid uris payload))) \<Longrightarrow>
         \<exists>i < length uris. uris ! i = u
           \<and> fst (fst (deliver_all e snap st uid uris payload) ! i) = Inl ActivityFailed"
proof (induction uris arbitrary: st)
  case Nil
  then show ?case by simp
next
  case (Cons x xs)
  show ?case
  proof (cases "sign_start e uid x")
    case (Inl err)
    with Cons.prems have "Post u hs b \<in> set (snd (snd (deliver_all e snap st uid xs payload)))"
      by (simp add: split_beta)
    from Cons.IH [OF this] obtain i where "i < length xs" "xs ! i = u"
      "fst (fst (deliver_all e snap st uid xs payload) ! i) = Inl ActivityFailed"
      by blast
    with Inl have "Suc i < length (x # xs) \<and> (x # xs) ! Suc i = u
      \<and> fst (fst (deliver_all e snap st uid (x # xs) payload) ! Suc i) = Inl ActivityFailed"
      by (simp add: split_beta)
    then show ?thesis by blast
  next
    case (Inr target)
    define answer where "answer = db_getObject snap (keys_key uid)"
    obtain r1 st1 tr1 where d: "deliver_resume e answer st uid x target payload = (r1, st1, tr1)"
      by (cases "deliver_resume e answer st uid x target payload")
    obtain ds st2 tr2 where da: "deliver_all e snap st1 uid xs payload = (ds, st2, tr2)"
      by (cases "deliver_all e snap st1 uid xs payload")
    from Cons.prems Inr d da have "Post u hs b \<in> set tr1 \<or> Post u hs b \<in> set tr2"
      by (simp add: answer_def)
    then show ?thesis
    proof
      assume "Post u hs b \<in> set tr1"
      with deliver_resume_rejected [of u hs b e answer st uid x target payload sc] d assms
      have "u = x" "r1 = Inl ActivityFailed" by simp_all
      with Inr d da have "0 < length (x # xs) \<and> (x # xs) ! 0 = u
        \<and> fst (fst (deliver_all e snap st uid (x # xs) payload) ! 0) = Inl ActivityFailed"
        by (simp add: answer_def)
      then show ?thesis by blast
    next
      assume "Post u hs b \<in> set tr2"
      with Cons.IH [of st1] da obtain i where "i < length xs" "xs ! i = u"
        "fst (ds ! i) = Inl ActivityFailed"
        by auto
      with Inr d da have "Suc i < length (x # xs) \<and> (x # xs) ! Suc i = u
        \<and> fst (fst (deliver_all e snap st uid (x # xs) payload) ! Suc i) = Inl ActivityFailed"
        by (simp add: answer_def)
      then show ?thesis by blast
    qed
  qed
qed

lemma normal_order_set: "set (normal_order n xs) = {..<n}"
  by (auto simp: normal_order_def)

lemma normal_order_distinct: "distinct (normal_order n xs)"
  by (auto simp: normal_order_def)

lemma settle_order_set: "set (settle_order e inboxes fl) = {..<length fl}"
  by (auto simp: settle_order_def Let_def normal_order_set)

lemma settle_order_distinct: "distinct (settle_order e inboxes fl)"
  by (auto simp: settle_order_def Let_def normal_order_distinct)

lemma promise_all_first:
  fixes f :: "nat \<Rightarrow> error + unit"
  shows "(case promise_all (map f xs) of Inl err \<Rightarrow> Inl err | Inr _ \<Rightarrow> Inr ())
           = (case find (\<lambda>i. isl (f i)) xs of None \<Rightarrow> Inr () | Some i \<Rightarrow> f i)"
proof (induction xs)
  case Nil
  then show ?case by simp
next
  case (Cons x xs)
  show ?case
  proof (cases "f x")
    case (Inl err)
    then show ?thesis by simp
  next
    case (Inr u)
    with Cons show ?thesis by (simp split: sum.splits)
  qed
qed

lemma key_signs:
  assumes "\<forall>kp s. (answer = Inr (Some kp) \<or> (\<exists>n. kp = generate_key_pair e n))
             \<longrightarrow> (\<exists>sg. rsa_sign e (privateKey kp) s = Inr sg)"
  shows "\<exists>sg. rsa_sign e (fst (getPrivateKey_resume e answer st uid)) s = Inr sg"
proof (cases answer)
  case (Inl err)
  then have "fst (getPrivateKey_resume e answer st uid)
               = privateKey (generate_key_pair e (generated st))"
    by (simp add: getPrivateKey_resume_def generateKeys_def Let_def)
  with assms show ?thesis by metis
next
  case (Inr found)
  show ?thesis
  proof (cases found)
    case None
    with Inr have "fst (getPrivateKey_resume e answer st uid)
               = privateKey (generate_key_pair e (generated st))"
      by (simp add: getPrivateKey_resume_def generateKeys_def Let_def)
    with assms show ?thesis by metis
  next
    case (Some kp)
    with Inr have "fst (getPrivateKey_resume e answer st uid) = privateKey kp"
      by (simp add: getPrivateKey_resume_def)
    with assms Inr Some show ?thesis by metis
  qed
qed

lemma deliver_resume_posts:
  assumes "\<forall>kp s. (answer = Inr (Some kp) \<or> (\<exists>n. kp = generate_key_pair e n))
             \<longrightarrow> (\<exists>sg. rsa_sign e (privateKey kp) s = Inr sg)"
  shows "\<exists>hs. snd (snd (deliver_resume e answer st uid uri target payload))
               = [Post uri hs payload]"
proof -
  obtain host pathname where t: "target = (host, pathname)"
    by (cases target)
  obtain sg where "rsa_sign e (fst (getPrivateKey_resume e answer st uid))
      (signing_string e host pathname (date_now e) payload) = Inr sg"
    using key_signs [OF assms] by blast
  then show ?thesis
    unfolding deliver_resume_def t sign_resume_unfold
    by (simp add: Let_def split: sum.splits)
qed

lemma deliver_all_posts:
  assumes "\<forall>kp s. (db_getObject snap (keys_key uid) = Inr (Some kp)
               \<or> (\<exists>n. kp = generate_key_pair e n))
             \<longrightarrow> (\<exists>sg. rsa_sign e (privateKey kp) s = Inr sg)"
  shows "i < length uris \<Longrightarrow> \<not> isl (sign_start e uid (uris ! i)) \<Longrightarrow>
         \<exists>hs. Post (uris ! i) hs payload
                 \<in> set (snd (snd (deliver_all e snap st uid uris payload)))"
proof (induction uris arbitrary: st i)
  case Nil
  then show ?case by simp
next
  case (Cons x xs)
  show ?case
  proof (cases i)
    case 0
    with Cons.prems obtain target where t: "sign_start e uid x = Inr target"
      by (cases "sign_start e uid x") simp_all
    obtain hs where "snd (snd (deliver_resume e (db_getObject snap (keys_key uid)) st uid x
        target payload)) = [Post x hs payload]"
      using deliver_resume_posts [OF assms] by blast
    with t 0 have "Post ((x # xs) ! i) hs payload
        \<in> set (snd (snd (deliver_all e snap st uid (x # xs) payload)))"
      by (simp add: split_beta)
    then show ?thesis by blast
  next
    case (Suc j)
    with Cons.prems have j: "j < length xs" "\<not> isl (sign_start e uid (xs ! j))"
      by simp_all
    from Cons.IH [OF j] Suc show ?thesis
      by (auto simp: split_beta split: sum.splits)
  qed
qed

text \<open>
  C7. Every resolved inbox has its delivery, and the deliveries that failed at once are
  those whose identity or URL \<open>sign\<close> refuses. Each delivery settles once, those that
  failed at once before all others. \<open>send\<close> ends as the first delivery to fail, in the
  order in which the deliveries settle: it fulfils only when none fails. A
  POST answered with a status outside 200 to 299 makes its delivery fail with
  \<open>activity-failed\<close>, so \<open>send\<close> ends in an error. No failure stops another delivery:
  each inbox that \<open>sign\<close> accepts is posted to when the identity's keys, the stored one
  and any generated one, sign.
\<close>

theorem send_surfaces_first_failure:
  assumes "resolveInboxes e st (case tgts of Many xs \<Rightarrow> xs | One x \<Rightarrow> [x]) = (Inr inboxes, st1)"
    and "deliver_all e st1 st1 uid inboxes (envelope e uid payload) = (ds, st2, tr)"
  shows "snd (snd (send e st uid tgts payload)) = tr
       \<and> length ds = length inboxes
       \<and> (\<forall>i < length inboxes. snd (ds ! i) = (uid < 0 \<or> parse_url e (inboxes ! i) = None))
       \<and> set (settle_order e inboxes (map snd ds)) = {..<length inboxes}
       \<and> distinct (settle_order e inboxes (map snd ds))
       \<and> (\<exists>rest. settle_order e inboxes (map snd ds)
                    = filter (\<lambda>i. snd (ds ! i)) [0..<length inboxes] @ rest
                 \<and> (\<forall>j \<in> set rest. \<not> snd (ds ! j)))
       \<and> fst (send e st uid tgts payload)
           = (case find (\<lambda>i. isl (fst (ds ! i))) (settle_order e inboxes (map snd ds)) of
                None \<Rightarrow> Inr ()
              | Some i \<Rightarrow> fst (ds ! i))
       \<and> (\<forall>uri hs body sc.
             Post uri hs body \<in> set tr \<and> request_post e uri hs body = Inr sc
               \<and> 100 \<le> sc \<and> sc \<le> 999 \<and> \<not> (200 \<le> sc \<and> sc \<le> 299)
             \<longrightarrow> (\<exists>i < length inboxes. inboxes ! i = uri \<and> fst (ds ! i) = Inl ActivityFailed)
                 \<and> (\<exists>err. fst (send e st uid tgts payload) = Inl err))
       \<and> (\<forall>i < length inboxes.
             0 \<le> uid \<and> parse_url e (inboxes ! i) \<noteq> None
               \<and> (\<forall>kp s. (db_getObject st1 (keys_key uid) = Inr (Some kp)
                             \<or> (\<exists>n. kp = generate_key_pair e n))
                           \<longrightarrow> (\<exists>sg. rsa_sign e (privateKey kp) s = Inr sg))
             \<longrightarrow> (\<exists>hs. Post (inboxes ! i) hs (envelope e uid payload) \<in> set tr))"
proof -
  define p where "p = envelope e uid payload"
  define order where "order = settle_order e inboxes (map snd ds)"
  have ds: "ds = fst (deliver_all e st1 st1 uid inboxes p)"
    and tr: "tr = snd (snd (deliver_all e st1 st1 uid inboxes p))"
    using assms(2) by (simp_all add: p_def)
  have len: "length ds = length inboxes"
    unfolding ds by (rule deliver_all_length)
  have t: "snd (snd (send e st uid tgts payload)) = tr"
    using assms by (simp add: send_def Let_def)
  have res: "fst (send e st uid tgts payload)
      = (case promise_all (map (\<lambda>i. fst (ds ! i)) order) of Inl err \<Rightarrow> Inl err | Inr _ \<Rightarrow> Inr ())"
    using assms by (simp add: send_def Let_def order_def)
  have first: "fst (send e st uid tgts payload)
      = (case find (\<lambda>i. isl (fst (ds ! i))) order of None \<Rightarrow> Inr () | Some i \<Rightarrow> fst (ds ! i))"
    unfolding res by (rule promise_all_first)
  have oset: "set order = {..<length inboxes}" and odist: "distinct order"
    unfolding order_def using settle_order_set [of e inboxes "map snd ds"] len
    by (simp_all add: settle_order_distinct)
  have early: "\<exists>rest. order = filter (\<lambda>i. snd (ds ! i)) [0..<length inboxes] @ rest
                 \<and> (\<forall>j \<in> set rest. \<not> snd (ds ! j))"
  proof -
    define rest where "rest = filter (\<lambda>i. \<not> map snd ds ! i)
      (normal_order (length inboxes) (io_order e inboxes))"
    have "filter (\<lambda>i. map snd ds ! i) [0..<length inboxes]
            = filter (\<lambda>i. snd (ds ! i)) [0..<length inboxes]"
      using len by (intro filter_cong) simp_all
    then have "order = filter (\<lambda>i. snd (ds ! i)) [0..<length inboxes] @ rest"
      by (simp add: order_def settle_order_def len rest_def Let_def)
    moreover have "\<not> snd (ds ! j)" if "j \<in> set rest" for j
    proof -
      from that have "j < length inboxes" and "\<not> map snd ds ! j"
        using normal_order_set [of "length inboxes" "io_order e inboxes"]
        by (auto simp: rest_def)
      with len show ?thesis by simp
    qed
    ultimately show ?thesis by blast
  qed
  have once: "snd (ds ! i) = (uid < 0 \<or> parse_url e (inboxes ! i) = None)"
    if "i < length inboxes" for i
    unfolding ds using deliver_all_at_once [OF that] by (simp add: sign_start_at_once)
  have fails: "\<exists>err. fst (send e st uid tgts payload) = Inl err"
    if "i < length inboxes" and "isl (fst (ds ! i))" for i
  proof -
    from that oset have "\<exists>j \<in> set order. isl (fst (ds ! j))" by auto
    then obtain j where "find (\<lambda>i. isl (fst (ds ! i))) order = Some j" and "isl (fst (ds ! j))"
      by (metis (mono_tags, lifting) find_None_iff find_Some_iff not_Some_eq)
    with first show ?thesis by (cases "fst (ds ! j)") simp_all
  qed
  have rejected: "(\<exists>i < length inboxes. inboxes ! i = uri \<and> fst (ds ! i) = Inl ActivityFailed)
        \<and> (\<exists>err. fst (send e st uid tgts payload) = Inl err)"
    if "Post uri hs body \<in> set tr" and "request_post e uri hs body = Inr sc"
      and "100 \<le> sc" and "sc \<le> 999" and "\<not> (200 \<le> sc \<and> sc \<le> 299)"
    for uri hs body sc
  proof -
    have "\<not> status_ok sc"
      using that(3,4,5) status_ok_three_digits by blast
    from deliver_all_rejected [OF that(2) this] that(1)
    obtain i where i: "i < length inboxes" "inboxes ! i = uri" "fst (ds ! i) = Inl ActivityFailed"
      unfolding tr ds by blast
    with fails [of i] show ?thesis by auto
  qed
  have posts: "\<exists>hs. Post (inboxes ! i) hs p \<in> set tr"
    if "i < length inboxes" and "0 \<le> uid" and "parse_url e (inboxes ! i) \<noteq> None"
      and "\<forall>kp s. (db_getObject st1 (keys_key uid) = Inr (Some kp)
                     \<or> (\<exists>n. kp = generate_key_pair e n))
                   \<longrightarrow> (\<exists>sg. rsa_sign e (privateKey kp) s = Inr sg)"
    for i
  proof -
    have "\<not> isl (sign_start e uid (inboxes ! i))"
      using that(2,3) by (simp add: sign_start_at_once)
    from deliver_all_posts [OF that(4) that(1) this] show ?thesis
      unfolding tr .
  qed
  from t len once oset odist early first rejected posts show ?thesis
    unfolding order_def p_def by blast
qed

theorem send_surfaces_first_failure_witness:
  "fst (send demo_env demo_state 42
         (Many [''https://other.example/users/carol'', ''https://broken.example/users/dave'',
                ''https://remote.example/users/alice'']) follow_payload) = Inl TypeError
   \<and> (\<exists>hs. Post ''https://other.example/inbox'' hs (envelope demo_env 42 follow_payload)
          \<in> set (snd (snd (send demo_env demo_state 42
                (Many [''https://other.example/users/carol'', ''https://broken.example/users/dave'',
                       ''https://remote.example/users/alice'']) follow_payload))))
   \<and> (\<exists>hs. Post ''https://remote.example/inbox'' hs (envelope demo_env 42 follow_payload)
          \<in> set (snd (snd (send demo_env demo_state 42
                (Many [''https://other.example/users/carol'', ''https://broken.example/users/dave'',
                       ''https://remote.example/users/alice'']) follow_payload))))
   \<and> fst (send demo_env demo_state 42
         (Many [''https://remote.example/users/alice'', ''https://other.example/users/carol''])
         follow_payload) = Inl ActivityFailed"
proof -
  let ?t1 = "Many [''https://other.example/users/carol'', ''https://broken.example/users/dave'',
                   ''https://remote.example/users/alice'']"
  let ?i1 = "[''https://other.example/inbox'', ''not a url'', ''https://remote.example/inbox'']"
  let ?s1 = "snd (resolveInboxes demo_env demo_state (case ?t1 of Many xs \<Rightarrow> xs | One x \<Rightarrow> [x]))"
  let ?d1 = "deliver_all demo_env ?s1 ?s1 42 ?i1 (envelope demo_env 42 follow_payload)"
  let ?t2 = "Many [''https://remote.example/users/alice'', ''https://other.example/users/carol'']"
  let ?i2 = "[''https://remote.example/inbox'', ''https://other.example/inbox'']"
  let ?s2 = "snd (resolveInboxes demo_env demo_state (case ?t2 of Many xs \<Rightarrow> xs | One x \<Rightarrow> [x]))"
  let ?d2 = "deliver_all demo_env ?s2 ?s2 42 ?i2 (envelope demo_env 42 follow_payload)"
  have "fst (resolveInboxes demo_env demo_state (case ?t1 of Many xs \<Rightarrow> xs | One x \<Rightarrow> [x]))
          = Inr ?i1"
    by code_simp
  then have r1: "resolveInboxes demo_env demo_state (case ?t1 of Many xs \<Rightarrow> xs | One x \<Rightarrow> [x])
          = (Inr ?i1, ?s1)"
    by (simp add: prod_eq_iff)
  have "fst (resolveInboxes demo_env demo_state (case ?t2 of Many xs \<Rightarrow> xs | One x \<Rightarrow> [x]))
          = Inr ?i2"
    by code_simp
  then have r2: "resolveInboxes demo_env demo_state (case ?t2 of Many xs \<Rightarrow> xs | One x \<Rightarrow> [x])
          = (Inr ?i2, ?s2)"
    by (simp add: prod_eq_iff)
  have d1: "?d1 = (fst ?d1, fst (snd ?d1), snd (snd ?d1))"
    and d2: "?d2 = (fst ?d2, fst (snd ?d2), snd (snd ?d2))"
    by simp_all
  note w1 = send_surfaces_first_failure [OF r1 d1]
  note w2 = send_surfaces_first_failure [OF r2 d2]
  have f1: "(case find (\<lambda>i. isl (fst (fst ?d1 ! i))) (settle_order demo_env ?i1 (map snd (fst ?d1)))
              of None \<Rightarrow> Inr () | Some i \<Rightarrow> fst (fst ?d1 ! i)) = Inl TypeError"
    by code_simp
  have f2: "(case find (\<lambda>i. isl (fst (fst ?d2 ! i))) (settle_order demo_env ?i2 (map snd (fst ?d2)))
              of None \<Rightarrow> Inr () | Some i \<Rightarrow> fst (fst ?d2 ! i)) = Inl ActivityFailed"
    by code_simp
  from w1 f1 have a: "fst (send demo_env demo_state 42 ?t1 follow_payload) = Inl TypeError"
    by simp
  from w2 f2 have b: "fst (send demo_env demo_state 42 ?t2 follow_payload) = Inl ActivityFailed"
    by simp
  have k: "\<forall>kp s. (db_getObject ?s1 (keys_key 42) = Inr (Some kp)
                     \<or> (\<exists>n. kp = generate_key_pair demo_env n))
             \<longrightarrow> (\<exists>sg. rsa_sign demo_env (privateKey kp) s = Inr sg)"
    by (simp add: demo_env_def demo_rsa_sign_def)
  have u: "parse_url demo_env (?i1 ! 0) \<noteq> None" "parse_url demo_env (?i1 ! 2) \<noteq> None"
    by (simp_all add: demo_env_def)
  from w1 have tr: "snd (snd (send demo_env demo_state 42 ?t1 follow_payload)) = snd (snd ?d1)"
    by blast
  from w1 have posts: "\<forall>i < length ?i1.
             0 \<le> (42::int) \<and> parse_url demo_env (?i1 ! i) \<noteq> None
               \<and> (\<forall>kp s. (db_getObject ?s1 (keys_key 42) = Inr (Some kp)
                             \<or> (\<exists>n. kp = generate_key_pair demo_env n))
                           \<longrightarrow> (\<exists>sg. rsa_sign demo_env (privateKey kp) s = Inr sg))
             \<longrightarrow> (\<exists>hs. Post (?i1 ! i) hs (envelope demo_env 42 follow_payload)
                     \<in> set (snd (snd ?d1)))"
    by blast
  from posts k u(1) have "\<exists>hs. Post (?i1 ! 0) hs (envelope demo_env 42 follow_payload)
      \<in> set (snd (snd ?d1))"
    by (elim allE [of _ 0]) simp
  then have c: "\<exists>hs. Post ''https://other.example/inbox'' hs (envelope demo_env 42 follow_payload)
      \<in> set (snd (snd (send demo_env demo_state 42 ?t1 follow_payload)))"
    unfolding tr by simp
  from posts k u(2) have "\<exists>hs. Post (?i1 ! 2) hs (envelope demo_env 42 follow_payload)
      \<in> set (snd (snd ?d1))"
    by (elim allE [of _ 2]) simp
  then have d: "\<exists>hs. Post ''https://remote.example/inbox'' hs (envelope demo_env 42 follow_payload)
      \<in> set (snd (snd (send demo_env demo_state 42 ?t1 follow_payload)))"
    unfolding tr by simp
  from a c d b show ?thesis by blast
qed

section \<open>Splitting and joining\<close>

lemma starts_with_Nil: "starts_with s [] = True"
  by (simp add: starts_with_def)

lemma starts_with_Cons: "starts_with (x # xs) (p # ps) = (x = p \<and> starts_with xs ps)"
  by (simp add: starts_with_def)

lemma starts_with_single: "starts_with (x # xs) [c] = (x = c)"
  by (simp add: starts_with_def)

lemma split_aux_single:
  "c \<notin> set a \<Longrightarrow> split_aux [c] acc (a @ c # rest) = (rev acc @ a) # split_aux [c] [] rest"
  by (induction a arbitrary: acc) (auto simp: starts_with_single)

lemma split_aux_single_last:
  "c \<notin> set a \<Longrightarrow> split_aux [c] acc a = [rev acc @ a]"
  by (induction a arbitrary: acc) (auto simp: starts_with_single)

lemma split_aux_equals_quote:
  "CHR ''='' \<notin> set name \<Longrightarrow>
   split_aux [CHR ''='', dq] acc (name @ CHR ''='' # dq # rest)
     = (rev acc @ name) # split_aux [CHR ''='', dq] [] rest"
  by (induction name arbitrary: acc) (auto simp: starts_with_Cons starts_with_Nil)

lemma split_aux_nonempty: "split_aux sep acc s \<noteq> []"
  by (induction sep acc s rule: split_aux.induct) simp_all

lemma join_js_Cons: "xs \<noteq> [] \<Longrightarrow> join_js (x # xs) sep = x @ sep @ join_js xs sep"
  by (cases xs) simp_all

lemma join_split_aux: "sep \<noteq> [] \<Longrightarrow> join_js (split_aux sep acc s) sep = rev acc @ s"
proof (induction sep acc s rule: split_aux.induct)
  case (1 sep acc)
  then show ?case by simp
next
  case (2 sep acc c cs)
  show ?case
  proof (cases "starts_with (c # cs) sep")
    case True
    then have "c # cs = sep @ drop (length sep) (c # cs)"
      unfolding starts_with_def by (metis append_take_drop_id)
    with 2 True show ?thesis
      by (simp add: join_js_Cons split_aux_nonempty)
  next
    case False
    with 2 show ?thesis by simp
  qed
qed

lemma parse_piece_field:
  assumes "CHR ''='' \<notin> set name" and "name \<noteq> ''__proto__''"
  shows "parse_piece memo (name @ [CHR ''='', dq] @ v @ [dq]) = memo(name \<mapsto> v)"
proof -
  have "split_js (name @ [CHR ''='', dq] @ v @ [dq]) [CHR ''='', dq]
          = name # split_aux [CHR ''='', dq] [] (v @ [dq])"
    using split_aux_equals_quote [OF assms(1), of "[]" "v @ [dq]"]
    by (simp add: split_js_def)
  then show ?thesis
    using assms(2) by (simp add: parse_piece_def join_split_aux)
qed

lemma parse_signature_value:
  assumes "CHR '','' \<notin> set keyId" and "CHR '','' \<notin> set hs" and "CHR '','' \<notin> set sg"
  shows "parse_signature (signature_value keyId hs sg)
           = [''keyId'' \<mapsto> keyId, ''headers'' \<mapsto> hs, ''signature'' \<mapsto> sg]"
proof -
  define p1 where "p1 = ''keyId'' @ [CHR ''='', dq] @ keyId @ [dq]"
  define p2 where "p2 = ''headers'' @ [CHR ''='', dq] @ hs @ [dq]"
  define p3 where "p3 = ''signature'' @ [CHR ''='', dq] @ sg @ [dq]"
  have c: "CHR '','' \<notin> set p1" "CHR '','' \<notin> set p2" "CHR '','' \<notin> set p3"
    using assms by (simp_all add: p1_def p2_def p3_def)
  have "signature_value keyId hs sg = p1 @ CHR '','' # p2 @ CHR '','' # p3"
    by (simp add: signature_value_def p1_def p2_def p3_def)
  then have "split_js (signature_value keyId hs sg) '','' = [p1, p2, p3]"
    using c by (simp add: split_js_def split_aux_single split_aux_single_last)
  moreover have "parse_piece memo p1 = memo(''keyId'' \<mapsto> keyId)" for memo
    using parse_piece_field [of "''keyId''" memo keyId] by (simp add: p1_def)
  moreover have "parse_piece memo p2 = memo(''headers'' \<mapsto> hs)" for memo
    using parse_piece_field [of "''headers''" memo hs] by (simp add: p2_def)
  moreover have "parse_piece memo p3 = memo(''signature'' \<mapsto> sg)" for memo
    using parse_piece_field [of "''signature''" memo sg] by (simp add: p3_def)
  ultimately show ?thesis
    unfolding parse_signature_def by simp
qed

lemma digit_char_no_comma: "d < 10 \<Longrightarrow> digit_char d \<noteq> CHR '',''"
proof -
  assume "d < 10"
  then have "d \<in> {0, 1, 2, 3, 4, 5, 6, 7, 8, 9}" by auto
  then show ?thesis by (auto simp: digit_char_def)
qed

lemma string_of_nat_no_comma: "CHR '','' \<notin> set (string_of_nat n)"
proof (induction n rule: string_of_nat.induct)
  case (1 n)
  show ?case
  proof (cases "n < 10")
    case True
    then have "string_of_nat n = [digit_char n]"
      by (subst string_of_nat.simps) simp
    with True digit_char_no_comma [of n] show ?thesis by auto
  next
    case False
    then have "string_of_nat n = string_of_nat (n div 10) @ [digit_char (n mod 10)]"
      by (subst string_of_nat.simps) simp
    with False 1 digit_char_no_comma [of "n mod 10"] show ?thesis by auto
  qed
qed

lemma keyId_no_comma:
  "CHR '','' \<notin> set (nconf_url e) \<Longrightarrow> CHR '','' \<notin> set (keyId_of e uid)"
  by (simp add: keyId_of_def string_of_int_def string_of_nat_no_comma)

lemma signed_headers_no_comma: "CHR '','' \<notin> set (signed_headers payload)"
  by (simp add: signed_headers_def)

lemma split_signed_headers:
  "split_js (signed_headers payload) '' ''
     = (if truthy payload then [''(request-target)'', ''host'', ''date'', ''digest'']
        else [''(request-target)'', ''host'', ''date''])"
  by (simp add: signed_headers_def split_js_def starts_with_def)

lemma rebuild_signed_string_eq:
  assumes "toLowerCase (req_method req) = (if truthy payload then ''post'' else ''get'')"
    and "req_baseUrl req @ req_path req = pathname"
    and "req_headers req ''host'' = Some host"
    and "req_headers req ''date'' = Some date"
    and "req_headers req ''digest'' = payload_digest e payload"
  shows "rebuild_signed_string req (signed_headers payload)
           = signing_string e host pathname date payload"
proof (cases "truthy payload")
  case True
  then obtain d where d: "payload_digest e payload = Some d"
    by (simp add: payload_digest_def)
  with True assms show ?thesis
    by (simp add: rebuild_signed_string_def split_signed_headers rebuild_step_def
        signing_string_def)
next
  case False
  with assms show ?thesis
    by (simp add: rebuild_signed_string_def split_signed_headers rebuild_step_def
        signing_string_def payload_digest_def)
qed

section \<open>Round trip\<close>

lemma verify_ignores_body: "verify e (req\<lparr>req_body := b\<rparr>) = verify e req"
proof -
  have "rebuild_step (req\<lparr>req_body := b\<rparr>) = rebuild_step req"
    by (intro ext) (simp add: rebuild_step_def)
  then have "rebuild_signed_string (req\<lparr>req_body := b\<rparr>) h = rebuild_signed_string req h" for h
    by (simp add: rebuild_signed_string_def)
  then show ?thesis
    by (simp add: verify_def Let_def cong: option.case_cong)
qed

lemma verify_with_key:
  assumes "req_headers req ''signature'' = Some (signature_value keyId hs sg)"
    and "CHR '','' \<notin> set keyId" and "CHR '','' \<notin> set hs" and "CHR '','' \<notin> set sg"
    and "request_get e (JStr keyId) [(''Accept'', JStr accept_type)] = Inr (sc, JObj body)"
    and "status_ok sc"
    and "map_of body ''hasOwnProperty'' = None"
    and "map_of body ''publicKey'' = Some (JObj pk)"
    and "map_of pk ''publicKeyPem'' = Some pem"
    and "rsa_verify e pem (rebuild_signed_string req hs) (JStr sg) = Inr b"
  shows "fst (verify e req) = Inr b"
proof -
  have f: "fetchPublicKey e (JStr keyId)
             = (Inr (JObj pk), [Get (JStr keyId) [(''Accept'', JStr accept_type)]])"
    using assms(5-8) by (simp add: fetchPublicKey_def)
  show ?thesis
    using assms(1,9,10) f
    by (simp add: verify_def parse_signature_value [OF assms(2-4)] opt_str_def)
qed

lemma rebuild_with_digest:
  assumes "truthy payload"
    and "toLowerCase (req_method req) = ''post''"
    and "req_headers req ''host'' = Some host"
    and "req_headers req ''date'' = Some date"
    and "req_headers req ''digest'' = Some d"
  shows "rebuild_signed_string req (signed_headers payload)
           = ''(request-target): post '' @ req_baseUrl req @ req_path req @ [nl]
               @ ''host: '' @ host @ [nl] @ ''date: '' @ date @ [nl] @ ''digest: '' @ d"
  using assms
  by (simp add: rebuild_signed_string_def split_signed_headers rebuild_step_def)

lemma sign_result:
  assumes "sign e st uid url payload = (Inr h, st')"
    and "parse_url e url = Some (host, pathname)"
  shows "0 \<le> uid \<and> (\<exists>sg. rsa_sign e (fst (getPrivateKey e st uid))
                          (signing_string e host pathname (date_now e) payload) = Inr sg
                \<and> h = \<lparr>sh_date = date_now e, sh_digest = payload_digest e payload,
                        sh_signature = signature_value (keyId_of e uid) (signed_headers payload) sg\<rparr>)"
proof -
  have u: "0 \<le> uid"
    using assms(1) by (cases "uid < 0") (simp_all add: sign_def sign_start_def)
  from assms(1) show ?thesis
    unfolding sign_unfold [OF u assms(2)] using u
    by (cases "rsa_sign e (fst (getPrivateKey e st uid))
                 (signing_string e host pathname (date_now e) payload)") auto
qed

lemma spell_no_comma: "CHR '','' \<notin> set (spell s)"
  by (induction s) (simp_all add: spell_def)

lemma spell_inj: "spell s = spell t \<Longrightarrow> s = t"
proof (induction s arbitrary: t)
  case Nil
  then show ?case by (cases t) (simp_all add: spell_def split: if_splits)
next
  case (Cons c cs)
  show ?case
  proof (cases t)
    case Nil
    with Cons.prems show ?thesis by (simp add: spell_def split: if_splits)
  next
    case (Cons d ds)
    with Cons.prems have "c = d" and "spell cs = spell ds"
      by (simp_all add: spell_def split: if_splits)
    with Cons.IH Cons show ?thesis by simp
  qed
qed

text \<open>
  C1, as the source has it. A header that \<open>sign\<close> produced verifies on a request that
  carries the same method, path, host, date and digest, when the key id resolves to the
  matching public key, the base URL has no comma and signatures have none. \<open>verify\<close>
  never reads the body, so changing the payload of the request changes nothing. It is a
  changed \<open>digest\<close> header that makes verification fail, for a signature scheme that
  rejects a signature on any other string.
\<close>

theorem sign_verify_round_trip:
  assumes "sign e st uid url payload = (Inr h, st')"
    and "parse_url e url = Some (host, pathname)"
    and "CHR '','' \<notin> set (nconf_url e)"
    and "\<forall>k s sg. rsa_sign e k s = Inr sg \<longrightarrow> CHR '','' \<notin> set sg"
    and "toLowerCase (req_method req) = (if truthy payload then ''post'' else ''get'')"
    and "req_baseUrl req @ req_path req = pathname"
    and "req_headers req ''signature'' = Some (sh_signature h)"
    and "req_headers req ''host'' = Some host"
    and "req_headers req ''date'' = Some (sh_date h)"
    and "req_headers req ''digest'' = sh_digest h"
    and "request_get e (JStr (keyId_of e uid)) [(''Accept'', JStr accept_type)]
           = Inr (sc, JObj body)"
    and "200 \<le> sc" and "sc \<le> 299"
    and "map_of body ''hasOwnProperty'' = None"
    and "map_of body ''publicKey'' = Some (JObj pk)"
    and "map_of pk ''publicKeyPem'' = Some pem"
    and "\<forall>s sg. rsa_sign e (fst (getPrivateKey e st uid)) s = Inr sg
           \<longrightarrow> rsa_verify e pem s (JStr sg) = Inr True"
  shows "fst (verify e req) = Inr True
       \<and> (\<forall>b. verify e (req\<lparr>req_body := b\<rparr>) = verify e req)
       \<and> (\<forall>d. (\<forall>s s' sg. rsa_sign e (fst (getPrivateKey e st uid)) s = Inr sg \<and> s' \<noteq> s
                   \<longrightarrow> rsa_verify e pem s' (JStr sg) = Inr False)
              \<and> sh_digest h \<noteq> None \<and> sh_digest h \<noteq> Some d
            \<longrightarrow> fst (verify e (req\<lparr>req_headers := (req_headers req)(''digest'' \<mapsto> d)\<rparr>))
                  = Inr False)"
proof -
  define key where "key = fst (getPrivateKey e st uid)"
  define S where "S = signing_string e host pathname (date_now e) payload"
  from sign_result [OF assms(1,2)]
  obtain sg where sg: "rsa_sign e key S = Inr sg"
    and h: "h = \<lparr>sh_date = date_now e, sh_digest = payload_digest e payload,
                 sh_signature = signature_value (keyId_of e uid) (signed_headers payload) sg\<rparr>"
    unfolding key_def S_def by blast
  have ok: "status_ok sc"
    using assms(12,13) status_ok_three_digits [of sc] by simp
  have nk: "CHR '','' \<notin> set (keyId_of e uid)"
    using assms(3) by (rule keyId_no_comma)
  have ns: "CHR '','' \<notin> set sg"
    using assms(4) sg by blast
  note with_key = verify_with_key [OF _ nk signed_headers_no_comma ns _ ok assms(14,15,16)]
  have r: "rebuild_signed_string req (signed_headers payload) = S"
    unfolding S_def using assms(5,6,8,9,10) h
    by (intro rebuild_signed_string_eq) simp_all
  have one: "fst (verify e req) = Inr True"
  proof (rule with_key)
    show "req_headers req ''signature''
            = Some (signature_value (keyId_of e uid) (signed_headers payload) sg)"
      using assms(7) h by simp
    show "request_get e (JStr (keyId_of e uid)) [(''Accept'', JStr accept_type)]
            = Inr (sc, JObj body)"
      by (rule assms(11))
    show "rsa_verify e pem (rebuild_signed_string req (signed_headers payload)) (JStr sg)
            = Inr True"
      using assms(17) sg r unfolding key_def by simp
  qed
  have three: "fst (verify e (req\<lparr>req_headers := (req_headers req)(''digest'' \<mapsto> d)\<rparr>))
                 = Inr False"
    if rej: "\<forall>s s' sg. rsa_sign e key s = Inr sg \<and> s' \<noteq> s
               \<longrightarrow> rsa_verify e pem s' (JStr sg) = Inr False"
      and dg: "sh_digest h \<noteq> None" "sh_digest h \<noteq> Some d"
    for d
  proof -
    define req' where "req' = req\<lparr>req_headers := (req_headers req)(''digest'' \<mapsto> d)\<rparr>"
    from dg(1) h have t: "truthy payload"
      by (cases "truthy payload") (simp_all add: payload_digest_def)
    then obtain d0 where d0: "payload_digest e payload = Some d0"
      by (simp add: payload_digest_def)
    with dg(2) h have ne: "d0 \<noteq> d" by simp
    have pp: "req_baseUrl req @ req_path req @ rest = pathname @ rest" for rest
      using assms(6) [symmetric] by simp
    have "rebuild_signed_string req' (signed_headers payload)
            = ''(request-target): post '' @ req_baseUrl req' @ req_path req' @ [nl]
                @ ''host: '' @ host @ [nl] @ ''date: '' @ date_now e @ [nl] @ ''digest: '' @ d"
      using t assms(5,8,9) h
      by (intro rebuild_with_digest) (simp_all add: req'_def)
    then have "rebuild_signed_string req' (signed_headers payload)
            = ''(request-target): post '' @ pathname @ [nl]
                @ ''host: '' @ host @ [nl] @ ''date: '' @ date_now e @ [nl] @ ''digest: '' @ d"
      by (simp add: req'_def pp)
    moreover have "S = ''(request-target): post '' @ pathname @ [nl]
                @ ''host: '' @ host @ [nl] @ ''date: '' @ date_now e @ [nl] @ ''digest: '' @ d0"
      using t d0 by (simp add: S_def signing_string_def)
    ultimately have "rebuild_signed_string req' (signed_headers payload) \<noteq> S"
      using ne by simp
    with rej sg
    have v: "rsa_verify e pem (rebuild_signed_string req' (signed_headers payload)) (JStr sg)
               = Inr False"
      by blast
    have "fst (verify e req') = Inr False"
    proof (rule with_key)
      show "req_headers req' ''signature''
              = Some (signature_value (keyId_of e uid) (signed_headers payload) sg)"
        using assms(7) h by (simp add: req'_def)
      show "request_get e (JStr (keyId_of e uid)) [(''Accept'', JStr accept_type)]
              = Inr (sc, JObj body)"
        by (rule assms(11))
      show "rsa_verify e pem (rebuild_signed_string req' (signed_headers payload)) (JStr sg)
              = Inr False"
        by (rule v)
    qed
    then show ?thesis by (simp add: req'_def)
  qed
  from one verify_ignores_body three show ?thesis
    unfolding key_def by blast
qed

theorem sign_verify_round_trip_witness:
  "fst (verify demo_env demo_delivery) = Inr True
   \<and> verify demo_env (demo_delivery\<lparr>req_body := tampered_payload\<rparr>)
       = verify demo_env demo_delivery
   \<and> fst (verify demo_env
        (demo_delivery\<lparr>req_headers := (req_headers demo_delivery)
           (''digest'' \<mapsto> ''sha-256='' @ rev (demo_stringify tampered_payload))\<rparr>)) = Inr False"
proof -
  define st' where "st' = snd (sign demo_env demo_state 42 ''https://remote.example/inbox''
    follow_payload)"
  have "fst (sign demo_env demo_state 42 ''https://remote.example/inbox'' follow_payload)
          = Inr demo_signed"
    by code_simp
  then have s: "sign demo_env demo_state 42 ''https://remote.example/inbox'' follow_payload
          = (Inr demo_signed, st')"
    unfolding st'_def by (simp add: prod_eq_iff)
  have u: "parse_url demo_env ''https://remote.example/inbox''
             = Some (''remote.example'', ''/inbox'')"
    by (simp add: demo_env_def)
  have c1: "CHR '','' \<notin> set (nconf_url demo_env)"
    by (simp add: demo_env_def)
  have c2: "\<forall>k s sg. rsa_sign demo_env k s = Inr sg \<longrightarrow> CHR '','' \<notin> set sg"
    by (auto simp: demo_env_def demo_rsa_sign_def spell_no_comma)
  have t: "truthy follow_payload"
    by (simp add: follow_payload_def)
  have m: "toLowerCase (req_method demo_delivery)
             = (if truthy follow_payload then ''post'' else ''get'')"
    unfolding t by code_simp
  have p: "req_baseUrl demo_delivery @ req_path demo_delivery = ''/inbox''"
    by (simp add: demo_delivery_def)
  have h1: "req_headers demo_delivery ''signature'' = Some (sh_signature demo_signed)"
    and h2: "req_headers demo_delivery ''host'' = Some ''remote.example''"
    and h3: "req_headers demo_delivery ''date'' = Some (sh_date demo_signed)"
    and h4: "req_headers demo_delivery ''digest'' = sh_digest demo_signed"
    by (simp_all add: demo_delivery_def demo_signed_def)
  have "keyId_of demo_env 42 = ''https://forum.example/uid/42#key''"
    by code_simp
  then have g: "request_get demo_env (JStr (keyId_of demo_env 42)) [(''Accept'', JStr accept_type)]
          = Inr (200, JObj [(''publicKey'', JObj [(''publicKeyPem'', JStr ''PUB0'')])])"
    by (simp add: demo_env_def)
  have r: "(200::nat) \<le> 200" "(200::nat) \<le> 299"
    by simp_all
  have b: "map_of [(''publicKey'', JObj [(''publicKeyPem'', JStr ''PUB0'')])] ''hasOwnProperty''
             = None"
    "map_of [(''publicKey'', JObj [(''publicKeyPem'', JStr ''PUB0'')])] ''publicKey''
             = Some (JObj [(''publicKeyPem'', JStr ''PUB0'')])"
    "map_of [(''publicKeyPem'', JStr ''PUB0'')] ''publicKeyPem'' = Some (JStr ''PUB0'')"
    by simp_all
  have k: "fst (getPrivateKey demo_env demo_state 42) = ''KEY0''"
    by code_simp
  have v: "\<forall>s sg. rsa_sign demo_env (fst (getPrivateKey demo_env demo_state 42)) s = Inr sg
             \<longrightarrow> rsa_verify demo_env (JStr ''PUB0'') s (JStr sg) = Inr True"
    unfolding k by (auto simp: demo_env_def demo_rsa_sign_def demo_rsa_verify_def)
  have j: "\<forall>s s' sg. rsa_sign demo_env (fst (getPrivateKey demo_env demo_state 42)) s = Inr sg
             \<and> s' \<noteq> s \<longrightarrow> rsa_verify demo_env (JStr ''PUB0'') s' (JStr sg) = Inr False"
    unfolding k
    by (auto simp: demo_env_def demo_rsa_sign_def demo_rsa_verify_def dest!: spell_inj)
  have d: "sh_digest demo_signed \<noteq> None"
    "sh_digest demo_signed \<noteq> Some (''sha-256='' @ rev (demo_stringify tampered_payload))"
    by (simp_all add: demo_signed_def follow_payload_def tampered_payload_def)
  from sign_verify_round_trip [OF s u c1 c2 m p h1 h2 h3 h4 g r b v] j d
  show ?thesis by blast
qed

text \<open>
  The second half of C1 as the claim states it fails: the header signed for one payload
  has a digest, the tampered payload differs from it in one byte of its serialisation,
  and the request that carries the tampered payload under the same headers verifies.
\<close>

theorem tampered_payload_verifies:
  "fst (sign demo_env demo_state 42 ''https://remote.example/inbox'' follow_payload)
     = Inr demo_signed
   \<and> sh_digest demo_signed
       = Some (''sha-256='' @ sha256_base64 demo_env (json_stringify demo_env follow_payload))
   \<and> json_stringify demo_env tampered_payload
       = (json_stringify demo_env follow_payload)[26 := CHR ''Y'']
   \<and> json_stringify demo_env tampered_payload \<noteq> json_stringify demo_env follow_payload
   \<and> req_headers demo_delivery ''digest'' = sh_digest demo_signed
   \<and> req_headers demo_delivery ''signature'' = Some (sh_signature demo_signed)
   \<and> fst (verify demo_env demo_delivery) = Inr True
   \<and> fst (verify demo_env (demo_delivery\<lparr>req_body := tampered_payload\<rparr>)) = Inr True"
  by (intro conjI; code_simp)

end
